theory Spec2Isabelle
  imports Complex_Main "HOL-Library.AList"
begin

section \<open>Python values and exceptions\<close>

text \<open>
  The module \<open>rpi_metar/sources.py\<close> is embedded function by function. Strings are
  \<open>char list\<close> over ASCII. An exception is a value of \<open>exn\<close>; a function that can
  raise returns \<open>exn + 'a\<close> with \<open>Inl\<close> for the raised exception.
\<close>

datatype exn =
    ValueError string
  | KeyError string
  | TypeError
  | AttributeError
  | RequestException
  | HTTPError nat
  | ExpatError
  | JSONDecodeError

section \<open>chunks\<close>

text \<open>
  \<open>range(start, stop, step)\<close> for a non-zero step; \<open>range\<close> raises \<open>ValueError\<close> on a
  zero step, which \<open>chunks\<close> below checks before it builds the range.
\<close>

function py_range :: "int \<Rightarrow> int \<Rightarrow> int \<Rightarrow> int list" where
  "py_range i stop step =
     (if (0 < step \<and> i < stop) \<or> (step < 0 \<and> stop < i)
      then i # py_range (i + step) stop step else [])"
  by pat_completeness auto
termination
  by (relation "measure (\<lambda>(i, stop, step). nat (if 0 < step then stop - i else i - stop))") auto

declare py_range.simps [simp del]

text \<open>The slice \<open>l[i:j]\<close>: a negative index counts from the end, both are clipped.\<close>

definition py_slice :: "'a list \<Rightarrow> int \<Rightarrow> int \<Rightarrow> 'a list" where
  "py_slice l i j =
     (let n = int (length l);
          lo = (if i < 0 then max (i + n) 0 else min i n);
          hi = (if j < 0 then max (j + n) 0 else min j n)
      in if lo < hi then take (nat (hi - lo)) (drop (nat lo) l) else [])"

text \<open>
  \<^verbatim>\<open>
  def chunks(l, n):
      for i in range(0, len(l), n):
          yield l[i:i + n]
  \<close>
  The generator is modelled by the list of the groups it yields.
\<close>

definition chunks :: "'a list \<Rightarrow> int \<Rightarrow> exn + 'a list list" where
  "chunks l n =
     (if n = 0 then Inl (ValueError ''range() arg 3 must not be zero'')
      else Inr (map (\<lambda>i. py_slice l i (i + n)) (py_range 0 (int (length l)) n)))"

text \<open>The groups of a list, by structural recursion on what is left of it.\<close>

function groups_of :: "nat \<Rightarrow> 'a list \<Rightarrow> 'a list list" where
  "groups_of n xs = (if n = 0 \<or> xs = [] then [] else take n xs # groups_of n (drop n xs))"
  by pat_completeness auto
termination
  by (relation "measure (\<lambda>(n, xs). length xs)") auto

declare groups_of.simps [simp del]

section \<open>Strings\<close>

text \<open>\<open>str.upper()\<close> and \<open>str.lower()\<close> on ASCII text, and \<open>sep.join(xs)\<close>.\<close>

definition ascii_lowercase :: string where
  "ascii_lowercase = ''abcdefghijklmnopqrstuvwxyz''"

definition ascii_uppercase :: string where
  "ascii_uppercase = ''ABCDEFGHIJKLMNOPQRSTUVWXYZ''"

definition upper_char :: "char \<Rightarrow> char" where
  "upper_char c = (case map_of (zip ascii_lowercase ascii_uppercase) c of Some u \<Rightarrow> u | None \<Rightarrow> c)"

definition lower_char :: "char \<Rightarrow> char" where
  "lower_char c = (case map_of (zip ascii_uppercase ascii_lowercase) c of Some u \<Rightarrow> u | None \<Rightarrow> c)"

definition upper :: "string \<Rightarrow> string" where
  "upper s = map upper_char s"

definition lower :: "string \<Rightarrow> string" where
  "lower s = map lower_char s"

fun join :: "string \<Rightarrow> string list \<Rightarrow> string" where
  "join sep [] = []"
| "join sep [x] = x"
| "join sep (x # y # ys) = x @ sep @ join sep (y # ys)"

section \<open>Python values\<close>

text \<open>
  What \<open>xmltodict.parse\<close>, \<open>response.json()\<close> and the configuration hand to the module:
  \<open>None\<close>, booleans, integers, strings, lists, and dictionaries with string keys (an
  association list, looked up with \<open>map_of\<close>).
\<close>

datatype pyval =
    PNone
  | PBool bool
  | PInt int
  | PStr string
  | PList "pyval list"
  | PDict "(string \<times> pyval) list"

definition exn_bind :: "exn + 'a \<Rightarrow> ('a \<Rightarrow> exn + 'b) \<Rightarrow> exn + 'b" where
  "exn_bind x f = (case x of Inl e \<Rightarrow> Inl e | Inr v \<Rightarrow> f v)"

text \<open>\<open>v[key]\<close> for a string key: only a dictionary can be subscripted by a string.\<close>

fun py_getitem :: "pyval \<Rightarrow> string \<Rightarrow> exn + pyval" where
  "py_getitem (PDict d) k = (case map_of d k of None \<Rightarrow> Inl (KeyError k) | Some v \<Rightarrow> Inr v)"
| "py_getitem _ k = Inl TypeError"

text \<open>\<open>v.upper()\<close>: only a string has the method.\<close>

fun py_upper :: "pyval \<Rightarrow> exn + string" where
  "py_upper (PStr s) = Inr (upper s)"
| "py_upper _ = Inl AttributeError"

text \<open>
  The items a \<open>for\<close> loop draws from a value: the elements of a list, the keys of a
  dictionary, the characters of a string; anything else is not iterable.
\<close>

fun py_iter :: "pyval \<Rightarrow> exn + pyval list" where
  "py_iter (PList xs) = Inr xs"
| "py_iter (PDict d) = Inr (map (\<lambda>k. PStr k) (remdups (map fst d)))"
| "py_iter (PStr s) = Inr (map (\<lambda>c. PStr [c]) s)"
| "py_iter _ = Inl TypeError"

section \<open>The network and the trace of effects\<close>

text \<open>
  A request is a GET of a URL or a POST of form data to a URL. The network is a
  parameter: \<open>net i rq\<close> is what the \<open>i\<close>-th request issued by the process gets when it
  is \<open>rq\<close>: \<open>None\<close> when \<open>requests\<close> raises (timeout, connection error), or the
  response. The world is the chronological trace of the effects performed so far.
\<close>

datatype request =
    GET string
  | POST string "(string \<times> pyval) list"

record response =
  status_code :: nat
  text' :: string

datatype event =
    LogInfo string
  | LogException string
  | Request request
  | Sleep nat
  | SessionOpen
  | SessionClose

type_synonym world = "event list"

type_synonym net = "nat \<Rightarrow> request \<Rightarrow> response option"

fun requests_of :: "world \<Rightarrow> request list" where
  "requests_of [] = []"
| "requests_of (Request rq # w) = rq # requests_of w"
| "requests_of (_ # w) = requests_of w"

fun sleeps_of :: "world \<Rightarrow> nat list" where
  "sleeps_of [] = []"
| "sleeps_of (Sleep ms # w) = ms # sleeps_of w"
| "sleeps_of (_ # w) = sleeps_of w"

definition issued :: "world \<Rightarrow> nat" where
  "issued w = length (requests_of w)"

definition send :: "net \<Rightarrow> request \<Rightarrow> world \<Rightarrow> response option \<times> world" where
  "send nt rq w = (nt (issued w) rq, w @ [Request rq])"

section \<open>METARSource._query\<close>

text \<open>
  \<open>response.raise_for_status()\<close> of the \<open>requests\<close> package raises \<open>HTTPError\<close> for a
  status code from 400 to 599 and returns for every other one.
\<close>

definition raise_for_status :: "response \<Rightarrow> exn + unit" where
  "raise_for_status r =
     (if 400 \<le> status_code r \<and> status_code r < 600 then Inl (HTTPError (status_code r))
      else Inr ())"

text \<open>
  The body of \<open>_query\<close>, one attempt:
  \<^verbatim>\<open>
  log.info(self.url)
  try:
      response = requests.get(self.url, timeout=10.0)
      response.raise_for_status()
  except:
      log.exception('Metar query failure.')
      raise
  return response
  \<close>
\<close>

definition query_body :: "net \<Rightarrow> string \<Rightarrow> world \<Rightarrow> (exn + response) \<times> world" where
  "query_body nt url w =
     (case send nt (GET url) (w @ [LogInfo url]) of
        (None, w1) \<Rightarrow> (Inl RequestException, w1 @ [LogException ''Metar query failure.''])
      | (Some r, w1) \<Rightarrow>
          (case raise_for_status r of
             Inl e \<Rightarrow> (Inl e, w1 @ [LogException ''Metar query failure.''])
           | Inr _ \<Rightarrow> (Inr r, w1)))"

text \<open>
  The decorator \<open>@retry(wait_exponential_multiplier=1000, wait_exponential_max=10000,
  stop_max_attempt_number=10)\<close> is the \<open>retrying\<close> package's. Its \<open>Retrying.call\<close> runs
  the function, returns its value when it does not raise (every exception is retried by
  default), and otherwise asks \<open>stop\<close>: with \<open>stop_max_attempt_number\<close> that is
  \<open>attempt_number >= stop_max_attempt_number\<close>, and then the last exception is raised
  again. When it goes on, it sleeps \<open>wait(attempt_number)\<close> milliseconds, which with the
  two \<open>wait_exponential\<close> arguments is the package's \<open>exponential_sleep\<close>:
  \<^verbatim>\<open>
  exp = 2 ** previous_attempt_number
  result = self._wait_exponential_multiplier * exp
  if result > self._wait_exponential_max:
      result = self._wait_exponential_max
  \<close>
  and the attempt number, which starts at 1, goes up by one.
\<close>

definition exponential_sleep :: "nat \<Rightarrow> nat \<Rightarrow> nat \<Rightarrow> nat" where
  "exponential_sleep multiplier mx previous_attempt_number =
     (let result = multiplier * 2 ^ previous_attempt_number
      in if result > mx then mx else result)"

function retry_call ::
  "nat \<Rightarrow> nat \<Rightarrow> nat \<Rightarrow> (world \<Rightarrow> (exn + 'a) \<times> world) \<Rightarrow> nat \<Rightarrow> world \<Rightarrow> (exn + 'a) \<times> world"
where
  "retry_call multiplier mx stop_max fn attempt_number w =
     (case fn w of
        (Inr v, w1) \<Rightarrow> (Inr v, w1)
      | (Inl e, w1) \<Rightarrow>
          if attempt_number \<ge> stop_max then (Inl e, w1)
          else retry_call multiplier mx stop_max fn (Suc attempt_number)
                 (w1 @ [Sleep (exponential_sleep multiplier mx attempt_number)]))"
  by pat_completeness auto
termination
  by (relation "measure (\<lambda>(multiplier, mx, stop_max, fn, attempt_number, w). stop_max - attempt_number)")
     auto

declare retry_call.simps [simp del]

definition query :: "net \<Rightarrow> string \<Rightarrow> world \<Rightarrow> (exn + response) \<times> world" where
  "query nt url w = retry_call 1000 10000 10 (query_body nt url) 1 w"

section \<open>NOAA and NOAABackup\<close>

record NOAA =
  airport_codes :: "string list"
  subdomain :: string

definition NOAA_init :: "string list \<Rightarrow> string \<Rightarrow> NOAA" where
  "NOAA_init codes sub = \<lparr> airport_codes = codes, subdomain = sub \<rparr>"

definition NOAABackup_init :: "string list \<Rightarrow> NOAA" where
  "NOAABackup_init codes = NOAA_init codes ''bcaws''"

definition NOAA_URL :: "string \<Rightarrow> string \<Rightarrow> string" where
  "NOAA_URL sub codes =
     ''https://'' @ sub @ ''.aviationweather.gov/adds/dataserver_current/httpparam''
     @ ''?dataSource=metars'' @ ''&requestType=retrieve'' @ ''&format=xml''
     @ ''&hoursBeforeNow=2'' @ ''&mostRecentForEachStation=true''
     @ ''&stationString='' @ codes"

text \<open>
  The \<open>try\<close> block of the loop body, with the XML parser \<open>parsexml\<close> as a parameter:
  \<^verbatim>\<open>
  response = parsexml(response.text)['response']['data']['METAR']
  if not isinstance(response, list):
      response = [response]
  \<close>
\<close>

definition NOAA_entries :: "(string \<Rightarrow> exn + pyval) \<Rightarrow> string \<Rightarrow> exn + pyval list" where
  "NOAA_entries parsexml body =
     exn_bind (parsexml body) (\<lambda>doc.
     exn_bind (py_getitem doc ''response'') (\<lambda>a.
     exn_bind (py_getitem a ''data'') (\<lambda>b.
     exn_bind (py_getitem b ''METAR'') (\<lambda>r.
       Inr (case r of PList ms \<Rightarrow> ms | _ \<Rightarrow> [r])))))"

text \<open>\<open>for m in response: metars[m['station_id'].upper()] = m\<close>\<close>

fun NOAA_store :: "(string \<rightharpoonup> pyval) \<Rightarrow> pyval list \<Rightarrow> exn + (string \<rightharpoonup> pyval)" where
  "NOAA_store metars [] = Inr metars"
| "NOAA_store metars (m # ms) =
     (case exn_bind (py_getitem m ''station_id'') py_upper of
        Inl e \<Rightarrow> Inl e
      | Inr k \<Rightarrow> NOAA_store (metars(k \<mapsto> m)) ms)"

text \<open>
  The loop of \<open>get_metar_info\<close> over the chunks; \<open>time.sleep(1.0)\<close> is in the
  \<open>finally\<close> clause, so it runs whether the parse raised or not.
\<close>

fun NOAA_loop ::
  "net \<Rightarrow> (string \<Rightarrow> exn + pyval) \<Rightarrow> string \<Rightarrow> string list list \<Rightarrow> (string \<rightharpoonup> pyval) \<Rightarrow> world
     \<Rightarrow> (exn + (string \<rightharpoonup> pyval)) \<times> world"
where
  "NOAA_loop nt parsexml sub [] metars w = (Inr metars, w)"
| "NOAA_loop nt parsexml sub (chunk # rest) metars w =
     (case query nt (NOAA_URL sub (join '','' chunk)) w of
        (Inl e, w1) \<Rightarrow> (Inl e, w1)
      | (Inr r, w1) \<Rightarrow>
          (case NOAA_entries parsexml (text' r) of
             Inl e \<Rightarrow> (Inl e, w1 @ [LogException ''Metar response is invalid.'', Sleep 1000])
           | Inr ms \<Rightarrow>
               (case NOAA_store metars ms of
                  Inl e \<Rightarrow> (Inl e, w1 @ [Sleep 1000])
                | Inr metars' \<Rightarrow> NOAA_loop nt parsexml sub rest metars' (w1 @ [Sleep 1000]))))"

definition NOAA_get_metar_info ::
  "net \<Rightarrow> (string \<Rightarrow> exn + pyval) \<Rightarrow> NOAA \<Rightarrow> world \<Rightarrow> (exn + (string \<rightharpoonup> pyval)) \<times> world"
where
  "NOAA_get_metar_info nt parsexml self w =
     (case chunks (airport_codes self) 250 of
        Inl e \<Rightarrow> (Inl e, w)
      | Inr cs \<Rightarrow> NOAA_loop nt parsexml (subdomain self) cs Map.empty w)"

section \<open>SkyVector\<close>

text \<open>
  Python's \<open>float\<close> is a parameter of the model: \<open>float_of\<close> is \<open>float(s)\<close> (\<open>None\<close> when
  it raises \<open>ValueError\<close>), \<open>float_lt\<close> is \<open><\<close>, \<open>float_add\<close> and \<open>float_sub\<close> are \<open>+\<close> and
  \<open>-\<close>, \<open>float_half\<close> is the literal \<open>0.5\<close> and \<open>float_str\<close> is how \<open>str.format\<close> prints a
  float.
\<close>

record 'f float_ops =
  float_of :: "string \<Rightarrow> 'f option"
  float_lt :: "'f \<Rightarrow> 'f \<Rightarrow> bool"
  float_add :: "'f \<Rightarrow> 'f \<Rightarrow> 'f"
  float_sub :: "'f \<Rightarrow> 'f \<Rightarrow> 'f"
  float_half :: 'f
  float_str :: "'f \<Rightarrow> string"

text \<open>\<open>(float(x) for x in xs)\<close>, drawn to its end: the first string that does not parse raises.\<close>

fun floats_of :: "'f float_ops \<Rightarrow> string list \<Rightarrow> exn + 'f list" where
  "floats_of ops [] = Inr []"
| "floats_of ops (x # xs) =
     (case float_of ops x of
        None \<Rightarrow> Inl (ValueError ''could not convert string to float'')
      | Some v \<Rightarrow> exn_bind (floats_of ops xs) (\<lambda>vs. Inr (v # vs)))"

text \<open>
  \<open>min\<close> and \<open>max\<close> of an iterable: the first item is the candidate, a later item
  replaces it when it is smaller (for \<open>max\<close>: greater); no item at all is a \<open>ValueError\<close>.
\<close>

fun py_min :: "('f \<Rightarrow> 'f \<Rightarrow> bool) \<Rightarrow> 'f list \<Rightarrow> exn + 'f" where
  "py_min lt [] = Inl (ValueError ''min() arg is an empty sequence'')"
| "py_min lt (x # xs) = Inr (foldl (\<lambda>best item. if lt item best then item else best) x xs)"

fun py_max :: "('f \<Rightarrow> 'f \<Rightarrow> bool) \<Rightarrow> 'f list \<Rightarrow> exn + 'f" where
  "py_max lt [] = Inl (ValueError ''max() arg is an empty sequence'')"
| "py_max lt (x # xs) = Inr (foldl (\<lambda>best item. if lt best item then item else best) x xs)"

record SkyVector =
  sv_airport_codes :: "string list"
  sv_data :: "(string \<times> string \<times> string) list"
  sv_url :: string

definition SkyVector_URL :: "string \<Rightarrow> string \<Rightarrow> string \<Rightarrow> string \<Rightarrow> string" where
  "SkyVector_URL lat1 lon1 lat2 lon2 =
     ''https://skyvector.com/api/dLayer''
     @ ''?ll1='' @ lat1 @ '','' @ lon1
     @ ''&ll2='' @ lat2 @ '','' @ lon2
     @ ''&layers=metar''"

text \<open>
  The loop of \<open>_find_coordinates\<close> over the rows that \<open>csv.reader\<close> gives for
  \<open>data/us-airports.csv\<close> (the rows are a parameter). \<open>data\<close> is the dictionary, in
  insertion order.
  \<^verbatim>\<open>
  for row in reader:
      airport_code, lat, lon = row
      if airport_code in self.airport_codes:
          data[airport_code] = (lat, lon)
  \<close>
\<close>

fun read_rows ::
  "string list \<Rightarrow> string list list \<Rightarrow> (string \<times> string \<times> string) list
     \<Rightarrow> exn + (string \<times> string \<times> string) list"
where
  "read_rows codes [] data = Inr data"
| "read_rows codes (row # rows) data =
     (case row of
        [airport_code, lat, lon] \<Rightarrow>
          read_rows codes rows
            (if airport_code \<in> set codes then AList.update airport_code (lat, lon) data else data)
      | _ \<Rightarrow>
          Inl (ValueError (if length row < 3 then ''not enough values to unpack''
                           else ''too many values to unpack'')))"

text \<open>
  The rest of \<open>_find_coordinates\<close>: the corners of the box around the coordinates in
  \<open>data\<close>, moved outwards by \<open>0.5\<close>, in the order \<open>lat1, lon1, lat2, lon2\<close>.
  \<^verbatim>\<open>
  lat1 = min((float(lat) for lat, _ in data.values()))
  lon1 = min((float(lon) for _, lon in data.values()))
  lat2 = max((float(lat) for lat, _ in data.values()))
  lon2 = max((float(lon) for _, lon in data.values()))
  lat1, lon1 = map(lambda x: x - 0.5, [lat1, lon1])
  lat2, lon2 = map(lambda x: x + 0.5, [lat2, lon2])
  \<close>
\<close>

definition bounding_box ::
  "'f float_ops \<Rightarrow> (string \<times> string \<times> string) list \<Rightarrow> exn + ('f \<times> 'f \<times> 'f \<times> 'f)"
where
  "bounding_box ops data =
     (let lats = map (\<lambda>(code, lat, lon). lat) data;
          lons = map (\<lambda>(code, lat, lon). lon) data
      in
      exn_bind (exn_bind (floats_of ops lats) (py_min (float_lt ops))) (\<lambda>lat1.
      exn_bind (exn_bind (floats_of ops lons) (py_min (float_lt ops))) (\<lambda>lon1.
      exn_bind (exn_bind (floats_of ops lats) (py_max (float_lt ops))) (\<lambda>lat2.
      exn_bind (exn_bind (floats_of ops lons) (py_max (float_lt ops))) (\<lambda>lon2.
        Inr (float_sub ops lat1 (float_half ops), float_sub ops lon1 (float_half ops),
             float_add ops lat2 (float_half ops), float_add ops lon2 (float_half ops)))))))"

definition find_coordinates ::
  "'f float_ops \<Rightarrow> string list list \<Rightarrow> string list \<Rightarrow> exn + SkyVector"
where
  "find_coordinates ops rows codes =
     exn_bind (read_rows codes rows []) (\<lambda>data.
     exn_bind (bounding_box ops data) (\<lambda>(lat1, lon1, lat2, lon2).
       Inr \<lparr> sv_airport_codes = codes,
             sv_data = data,
             sv_url = SkyVector_URL (float_str ops lat1) (float_str ops lon1)
                        (float_str ops lat2) (float_str ops lon2) \<rparr>))"

definition SkyVector_init ::
  "'f float_ops \<Rightarrow> string list list \<Rightarrow> string list \<Rightarrow> exn + SkyVector"
where
  "SkyVector_init ops rows codes = find_coordinates ops rows (map upper codes)"

text \<open>
  \<^verbatim>\<open>
  for item in data:
      if item['s'] in self.airport_codes:
          metars[item['s'].upper()] = {'raw_text': item['m']}
  \<close>
  The right-hand side of the assignment is evaluated before the key.
\<close>

fun SkyVector_store ::
  "string list \<Rightarrow> (string \<rightharpoonup> pyval) \<Rightarrow> pyval list \<Rightarrow> exn + (string \<rightharpoonup> pyval)"
where
  "SkyVector_store codes metars [] = Inr metars"
| "SkyVector_store codes metars (item # items) =
     (case py_getitem item ''s'' of
        Inl e \<Rightarrow> Inl e
      | Inr s \<Rightarrow>
          if s \<in> set (map PStr codes) then
            (case py_getitem item ''m'' of
               Inl e \<Rightarrow> Inl e
             | Inr m \<Rightarrow>
                 (case exn_bind (py_getitem item ''s'') py_upper of
                    Inl e \<Rightarrow> Inl e
                  | Inr k \<Rightarrow>
                      SkyVector_store codes (metars(k \<mapsto> PDict [(''raw_text'', m)])) items))
          else SkyVector_store codes metars items)"

definition SkyVector_get_metar_info ::
  "net \<Rightarrow> (string \<Rightarrow> exn + pyval) \<Rightarrow> SkyVector \<Rightarrow> world
     \<Rightarrow> (exn + (string \<rightharpoonup> pyval)) \<times> world"
where
  "SkyVector_get_metar_info nt json self w =
     (case query nt (sv_url self) w of
        (Inl e, w1) \<Rightarrow> (Inl e, w1)
      | (Inr r, w1) \<Rightarrow>
          (case exn_bind (json (text' r)) (\<lambda>d. py_getitem d ''weather'') of
             Inl e \<Rightarrow> (Inl e, w1 @ [LogException ''Metar response is invalid.''])
           | Inr data \<Rightarrow>
               (exn_bind (py_iter data) (SkyVector_store (sv_airport_codes self) Map.empty), w1)))"

section \<open>The scraping pattern of BOM and IFIS\<close>

text \<open>
  Both adapters scan the page with \<open>re.finditer\<close> and the pattern
  \<^verbatim>\<open>(?:METAR |SPECI )(?P<METAR>(?P<CODE>\w{4}).*?)(?:T1|T2|...)\<close>
  where the terminators \<open>T1, T2, ...\<close> differ between the two. \<open>\w\<close> is a letter, a
  digit or an underscore; \<open>.\<close> is any character but a newline.
\<close>

definition digits :: string where
  "digits = ''0123456789''"

definition is_word_char :: "char \<Rightarrow> bool" where
  "is_word_char c \<longleftrightarrow> c \<in> set (ascii_lowercase @ ascii_uppercase @ digits @ ''_'')"

definition starts_with :: "string \<Rightarrow> string \<Rightarrow> bool" where
  "starts_with s t \<longleftrightarrow> take (length t) s = t"

text \<open>
  The lazy \<open>.*?\<close> followed by the alternation of terminators: the shortest run of
  non-newline characters after which a terminator stands, the first terminator of the
  alternation that matches there. The result is the run and the text after the terminator.
\<close>

fun lazy_until :: "string list \<Rightarrow> string \<Rightarrow> (string \<times> string) option" where
  "lazy_until ts s =
     (case find (starts_with s) ts of
        Some t \<Rightarrow> Some ([], drop (length t) s)
      | None \<Rightarrow>
          (case s of
             [] \<Rightarrow> None
           | c # cs \<Rightarrow>
               if c = CHR 0x0A then None
               else map_option (\<lambda>(m, rest). (c # m, rest)) (lazy_until ts cs)))"

declare lazy_until.simps [simp del]

text \<open>The whole pattern at the start of \<open>s\<close>: the groups \<open>(CODE, METAR)\<close> and the text after the match.\<close>

definition match_here :: "string list \<Rightarrow> string \<Rightarrow> ((string \<times> string) \<times> string) option" where
  "match_here ts s =
     (if starts_with s ''METAR '' \<or> starts_with s ''SPECI '' then
        (let code = take 4 (drop 6 s) in
         if length code = 4 \<and> list_all is_word_char code then
           (case lazy_until ts (drop 10 s) of
              Some (m, rest) \<Rightarrow> Some ((code, code @ m), rest)
            | None \<Rightarrow> None)
         else None)
      else None)"

lemma lazy_until_length: "lazy_until ts s = Some (m, rest) \<Longrightarrow> length rest \<le> length s"
proof (induction s arbitrary: m)
  case Nil
  then show ?case
    by (subst (asm) lazy_until.simps) (auto split: option.splits)
next
  case (Cons c cs)
  from Cons.prems show ?case
    by (subst (asm) lazy_until.simps)
       (auto split: option.splits if_splits dest!: Cons.IH intro: le_SucI)
qed

lemma match_here_length: "match_here ts s = Some (g, rest) \<Longrightarrow> length rest < length s"
  by (auto simp: match_here_def Let_def split: if_splits option.splits dest!: lazy_until_length)

text \<open>\<open>re.finditer\<close>: the matches from left to right, each search starting where the last match ended.\<close>

function finditer :: "string list \<Rightarrow> string \<Rightarrow> (string \<times> string) list" where
  "finditer ts s =
     (case match_here ts s of
        Some (g, rest) \<Rightarrow> g # finditer ts rest
      | None \<Rightarrow> (case s of [] \<Rightarrow> [] | c # cs \<Rightarrow> finditer ts cs))"
  by pat_completeness auto
termination
  by (relation "measure (\<lambda>(ts, s). length s)") (auto dest: match_here_length)

declare finditer.simps [simp del]

text \<open>
  \<^verbatim>\<open>
  for match in matches:
      info = match.groupdict()
      metars[info['CODE'].upper()] = {'raw_text': info['METAR']}
  \<close>
\<close>

fun scrape_store :: "(string \<rightharpoonup> pyval) \<Rightarrow> (string \<times> string) list \<Rightarrow> (string \<rightharpoonup> pyval)" where
  "scrape_store metars [] = metars"
| "scrape_store metars ((code, metar) # matches) =
     scrape_store (metars(upper code \<mapsto> PDict [(''raw_text'', PStr metar)])) matches"

section \<open>BOM\<close>

record BOM =
  bom_airport_codes :: string

definition BOM_URL :: string where
  "BOM_URL = ''http://www.bom.gov.au/aviation/php/process.php''"

definition BOM_init :: "string list \<Rightarrow> BOM" where
  "BOM_init codes = \<lparr> bom_airport_codes = join '','' codes \<rparr>"

definition BOM_terminators :: "string list" where
  "BOM_terminators = [''<br />'', ''<h3>'']"

definition BOM_payload :: "BOM \<Rightarrow> (string \<times> pyval) list" where
  "BOM_payload self =
     [(''keyword'', PStr (bom_airport_codes self)),
      (''type'', PStr ''search''),
      (''page'', PStr ''TAF'')]"

text \<open>\<open>requests.post\<close> is called directly: one request, no status check.\<close>

definition BOM_get_metar_info ::
  "net \<Rightarrow> BOM \<Rightarrow> world \<Rightarrow> (exn + (string \<rightharpoonup> pyval)) \<times> world"
where
  "BOM_get_metar_info nt self w =
     (case send nt (POST BOM_URL (BOM_payload self)) w of
        (None, w1) \<Rightarrow> (Inl RequestException, w1)
      | (Some r, w1) \<Rightarrow>
          (Inr (scrape_store Map.empty (finditer BOM_terminators (text' r))), w1))"

section \<open>IFIS\<close>

definition IFIS_URL :: string where
  "IFIS_URL = ''https://www.ifis.airways.co.nz/script/briefing/met_briefing_proc.asp''"

definition IFIS_LOGIN_URL :: string where
  "IFIS_LOGIN_URL = ''https://www.ifis.airways.co.nz/secure/script/user_reg/login_proc.asp''"

definition ACCEPTED_CODES :: "string set" where
  "ACCEPTED_CODES =
     {''NZCH'', ''NZCI'', ''NZAA'', ''NZDN'', ''NZGS'', ''NZHN'', ''NZHK'', ''NZNV'',
      ''NZKK'', ''NZMS'', ''NZMF'', ''NZNR'', ''NZNS'', ''NZNP'', ''NZOU'', ''NZOH'',
      ''NZPM'', ''NZPP'', ''NZQN'', ''NZRO'', ''NZAP'', ''NZTG'', ''NZMO'', ''NZTU'',
      ''NZWF'', ''NZWN'', ''NZWS'', ''NZWK'', ''NZWU'', ''NZWR'', ''NZWP'', ''NZWB''}"

record IFIS =
  ifis_airport_codes :: string
  username :: pyval
  password :: pyval
  login_payload :: "(string \<times> pyval) list"
  data_payload :: "(string \<times> pyval) list"

definition IFIS_init :: "string list \<Rightarrow> pyval \<Rightarrow> exn + IFIS" where
  "IFIS_init codes config =
     (let joined = join '' '' (filter (\<lambda>code. code \<in> ACCEPTED_CODES) codes) in
      exn_bind (exn_bind (py_getitem config ''ifis'') (\<lambda>c. py_getitem c ''username'')) (\<lambda>u.
      exn_bind (exn_bind (py_getitem config ''ifis'') (\<lambda>c. py_getitem c ''password'')) (\<lambda>p.
        Inr \<lparr> ifis_airport_codes = joined,
              username = u,
              password = p,
              login_payload = [(''UserName'', u), (''Password'', p)],
              data_payload = [(''METAR'', PInt 1), (''MetLocations'', PStr joined)] \<rparr>)))"

definition IFIS_terminators :: "string list" where
  "IFIS_terminators = [''<br/>'', ''<h3>'', ''=</span>'', ''<br />'']"

text \<open>
  The two posts run inside \<open>with requests.Session() as session\<close>, which closes the
  session on every way out; neither is retried and no status is checked.
\<close>

definition IFIS_get_metar_info ::
  "net \<Rightarrow> IFIS \<Rightarrow> world \<Rightarrow> (exn + (string \<rightharpoonup> pyval)) \<times> world"
where
  "IFIS_get_metar_info nt self w =
     (case send nt (POST IFIS_LOGIN_URL (login_payload self)) (w @ [SessionOpen]) of
        (None, w1) \<Rightarrow> (Inl RequestException, w1 @ [SessionClose])
      | (Some _, w1) \<Rightarrow>
          (case send nt (POST IFIS_URL (data_payload self)) w1 of
             (None, w2) \<Rightarrow> (Inl RequestException, w2 @ [SessionClose])
           | (Some r, w2) \<Rightarrow>
               (Inr (scrape_store Map.empty (finditer IFIS_terminators (text' r))),
                w2 @ [LogInfo (text' r), SessionClose])))"

section \<open>KO61\<close>

text \<open>
  The coroutine is modelled as the sequence of its awaited steps. What the browser does
  is a parameter: for each step, whether it raises and what. An exception is an
  \<open>Error\<close> (an instance of \<open>Exception\<close>, which \<open>except Exception\<close> catches) or
  \<open>Cancelled\<close> (a \<open>BaseException\<close> outside \<open>Exception\<close>, as \<open>asyncio.CancelledError\<close>
  is, which it does not catch).
\<close>

datatype raised =
    Error string
  | Cancelled

record browser =
  launch :: "raised option"
  newPage :: "raised option"
  goto :: "raised option"
  sleep :: "raised option"
  waitForSelector :: "raised option"
  evaluate :: "raised + pyval"
  close :: "raised option"

datatype bevent =
    BLaunch
  | BNewPage
  | BGoto string
  | BSleep nat
  | BWaitForSelector string
  | BEvaluate
  | BPrint
  | BClose

definition KO61_URL :: string where
  "KO61_URL = ''https://ko61.awos.live''"

text \<open>\<open>str.split()\<close> with no argument: the runs of non-whitespace characters.\<close>

definition is_space :: "char \<Rightarrow> bool" where
  "is_space c \<longleftrightarrow>
     c \<in> set [CHR '' '', CHR 0x09, CHR 0x0A, CHR 0x0B, CHR 0x0C, CHR 0x0D,
               CHR 0x1C, CHR 0x1D, CHR 0x1E, CHR 0x1F]"

fun split_acc :: "string \<Rightarrow> string \<Rightarrow> string list" where
  "split_acc cur [] = (if cur = [] then [] else [cur])"
| "split_acc cur (c # cs) =
     (if is_space c then (if cur = [] then split_acc [] cs else cur # split_acc [] cs)
      else split_acc (cur @ [c]) cs)"

definition py_split :: "string \<Rightarrow> string list" where
  "py_split s = split_acc [] s"

text \<open>\<open>str.strip()\<close> and \<open>list.index(x)\<close>.\<close>

definition py_strip :: "string \<Rightarrow> string" where
  "py_strip s = rev (dropWhile is_space (rev (dropWhile is_space s)))"

fun py_index :: "'a list \<Rightarrow> 'a \<Rightarrow> nat option" where
  "py_index [] x = None"
| "py_index (y # ys) x = (if y = x then Some 0 else map_option Suc (py_index ys x))"

text \<open>
  The extraction from the text of the element:
  \<^verbatim>\<open>
  metar_parts = full_metar.split()
  metar_data = ' '.join(metar_parts[metar_parts.index('KO61'):]).strip()
  metars = {'KO61': {'raw_text': metar_data}}
  \<close>
  Every exception it raises is an instance of \<open>Exception\<close>.
\<close>

definition KO61_extract :: "pyval \<Rightarrow> raised + (string \<rightharpoonup> pyval)" where
  "KO61_extract full_metar =
     (case full_metar of
        PStr s \<Rightarrow>
          (let metar_parts = py_split s in
           case py_index metar_parts ''KO61'' of
             None \<Rightarrow> Inl (Error ''ValueError'')
           | Some i \<Rightarrow>
               Inr [''KO61'' \<mapsto> PDict [(''raw_text'', PStr (py_strip (join '' '' (drop i metar_parts))))]])
      | _ \<Rightarrow> Inl (Error ''AttributeError''))"

text \<open>The body of the \<open>try\<close> block, with the calls it has made.\<close>

definition KO61_try :: "browser \<Rightarrow> (raised + (string \<rightharpoonup> pyval)) \<times> bevent list" where
  "KO61_try b =
     (case goto b of
        Some e \<Rightarrow> (Inl e, [BGoto KO61_URL])
      | None \<Rightarrow>
     (case sleep b of
        Some e \<Rightarrow> (Inl e, [BGoto KO61_URL, BSleep 1])
      | None \<Rightarrow>
     (case waitForSelector b of
        Some e \<Rightarrow> (Inl e, [BGoto KO61_URL, BSleep 1, BWaitForSelector ''#OfficialObs''])
      | None \<Rightarrow>
     (case evaluate b of
        Inl e \<Rightarrow>
          (Inl e, [BGoto KO61_URL, BSleep 1, BWaitForSelector ''#OfficialObs'', BEvaluate])
      | Inr full_metar \<Rightarrow>
          (KO61_extract full_metar,
           [BGoto KO61_URL, BSleep 1, BWaitForSelector ''#OfficialObs'', BEvaluate])))))"

text \<open>
  \<open>get_metar_info\<close>: \<open>launch\<close> and \<open>browser.newPage()\<close> come before the \<open>try\<close>
  statement; \<open>except Exception\<close> prints and returns \<open>None\<close>; the \<open>finally\<close> clause
  awaits \<open>browser.close()\<close>, whose exception, if it raises, replaces the outcome.
\<close>

definition KO61_get_metar_info ::
  "browser \<Rightarrow> (raised + (string \<rightharpoonup> pyval) option) \<times> bevent list"
where
  "KO61_get_metar_info b =
     (case launch b of
        Some e \<Rightarrow> (Inl e, [BLaunch])
      | None \<Rightarrow>
     (case newPage b of
        Some e \<Rightarrow> (Inl e, [BLaunch, BNewPage])
      | None \<Rightarrow>
          (let (r, tr) = KO61_try b;
               (outcome, tr1) =
                 (case r of
                    Inr metars \<Rightarrow> (Inr (Some metars), tr)
                  | Inl (Error msg) \<Rightarrow> (Inr None, tr @ [BPrint])
                  | Inl Cancelled \<Rightarrow> (Inl Cancelled, tr))
           in case close b of
                Some e \<Rightarrow> (Inl e, [BLaunch, BNewPage] @ tr1 @ [BClose])
              | None \<Rightarrow> (outcome, [BLaunch, BNewPage] @ tr1 @ [BClose]))))"

text \<open>The browser process is left running: it was launched and \<open>close\<close> was never called.\<close>

definition leaked :: "browser \<Rightarrow> bevent list \<Rightarrow> bool" where
  "leaked b tr \<longleftrightarrow> launch b = None \<and> BLaunch \<in> set tr \<and> BClose \<notin> set tr"

text \<open>What a record stored under a key by the two scraping adapters looks like.\<close>

definition key_of_raw_text :: "string \<Rightarrow> pyval \<Rightarrow> bool" where
  "key_of_raw_text k v \<longleftrightarrow>
     (\<exists>raw. v = PDict [(''raw_text'', PStr raw)]
        \<and> length (take 4 raw) = 4 \<and> list_all is_word_char (take 4 raw)
        \<and> upper (take 4 raw) = k)"

section \<open>Vocabulary for the statements about retries\<close>

text \<open>
  The \<open>i\<close>-th request of the process, if it is a GET of \<open>url\<close>, fails: \<open>requests.get\<close>
  raises, or the status makes \<open>raise_for_status\<close> raise. \<open>attempt_error\<close> is the
  exception of such an attempt.
\<close>

definition attempt_fails :: "net \<Rightarrow> nat \<Rightarrow> string \<Rightarrow> bool" where
  "attempt_fails nt i url =
     (case nt i (GET url) of
        None \<Rightarrow> True
      | Some r \<Rightarrow> 400 \<le> status_code r \<and> status_code r < 600)"

definition attempt_error :: "net \<Rightarrow> nat \<Rightarrow> string \<Rightarrow> exn" where
  "attempt_error nt i url =
     (case nt i (GET url) of
        None \<Rightarrow> RequestException
      | Some r \<Rightarrow> HTTPError (status_code r))"

text \<open>What a failed attempt number \<open>a\<close> that is retried leaves in the trace, and a last attempt.\<close>

definition retried_attempt :: "string \<Rightarrow> nat \<Rightarrow> event list" where
  "retried_attempt url a =
     [LogInfo url, Request (GET url), LogException ''Metar query failure.'',
      Sleep (exponential_sleep 1000 10000 a)]"

definition retried_attempts :: "string \<Rightarrow> nat \<Rightarrow> nat \<Rightarrow> event list" where
  "retried_attempts url a K = concat (map (retried_attempt url) [a..<a + K])"

text \<open>
  A fragment of Python's \<open>float\<close> on which the examples below are evaluated: the
  values are rationals, and \<open>float\<close> and \<open>str.format\<close> are given on the few numbers used.
\<close>

definition example_floats :: "rat float_ops" where
  "example_floats =
     \<lparr> float_of = (\<lambda>s. if s = ''39'' then Some 39 else if s = ''-104'' then Some (- 104)
                       else if s = ''40'' then Some 40 else if s = ''-73'' then Some (- 73)
                       else None),
       float_lt = (<),
       float_add = (+),
       float_sub = (-),
       float_half = 1 / 2,
       float_str = (\<lambda>x. if x = 77 / 2 then ''38.5'' else if x = 79 / 2 then ''39.5''
                       else if x = - 209 / 2 then ''-104.5'' else if x = - 207 / 2 then ''-103.5''
                       else if x = 81 / 2 then ''40.5'' else if x = - 145 / 2 then ''-72.5''
                       else ''?'') \<rparr>"

text \<open>
  The entry that a row of three columns puts into \<open>data\<close>, and the latitude and the
  longitude of an entry as floats.
\<close>

definition dataset_entry :: "string list \<Rightarrow> string \<times> string \<times> string" where
  "dataset_entry row = (row ! 0, row ! 1, row ! 2)"

definition lat_of :: "'f float_ops \<Rightarrow> string \<times> string \<times> string \<Rightarrow> 'f" where
  "lat_of ops entry = (case entry of (code, lat, lon) \<Rightarrow> the (float_of ops lat))"

definition lon_of :: "'f float_ops \<Rightarrow> string \<times> string \<times> string \<Rightarrow> 'f" where
  "lon_of ops entry = (case entry of (code, lat, lon) \<Rightarrow> the (float_of ops lon))"

text \<open>
  The attempts of a stretch of trace that starts when \<open>n\<close> requests have been issued:
  each request with what the network gave it. \<open>failed\<close> is an outcome that makes the
  caller raise when the status is checked, \<open>failure\<close> the exception it raises.
\<close>

fun attempts :: "net \<Rightarrow> nat \<Rightarrow> event list \<Rightarrow> (request \<times> response option) list" where
  "attempts nt n [] = []"
| "attempts nt n (Request rq # evs) = (rq, nt n rq) # attempts nt (Suc n) evs"
| "attempts nt n (_ # evs) = attempts nt n evs"

definition failed :: "response option \<Rightarrow> bool" where
  "failed outcome =
     (case outcome of None \<Rightarrow> True | Some r \<Rightarrow> 400 \<le> status_code r \<and> status_code r < 600)"

definition failure :: "response option \<Rightarrow> exn" where
  "failure outcome =
     (case outcome of None \<Rightarrow> RequestException | Some r \<Rightarrow> HTTPError (status_code r))"



text \<open>
  The responses that \<open>_query\<close> returned in a stretch of trace: those of the attempts
  that did not fail. And the keys under which \<open>NOAA.get_metar_info\<close> stores the
  entries of one response: the upper-cased station ids.
\<close>

definition successes :: "net \<Rightarrow> nat \<Rightarrow> event list \<Rightarrow> response set" where
  "successes nt n evs = {r. \<exists>rq. (rq, Some r) \<in> set (attempts nt n evs) \<and> \<not> failed (Some r)}"

definition station_keys :: "pyval list \<Rightarrow> string set" where
  "station_keys ms = {k. \<exists>m \<in> set ms. exn_bind (py_getitem m ''station_id'') py_upper = Inr k}"

text \<open>
  The request that \<open>NOAA.get_metar_info\<close> makes for a chunk, and the keys that the
  entries of a set of responses are stored under.
\<close>

definition NOAA_request :: "string \<Rightarrow> string list \<Rightarrow> request" where
  "NOAA_request sub chunk = GET (NOAA_URL sub (join '','' chunk))"

definition parsed_keys :: "(string \<Rightarrow> exn + pyval) \<Rightarrow> response set \<Rightarrow> string set" where
  "parsed_keys parsexml rs =
     {k. \<exists>r \<in> rs. \<exists>ms. NOAA_entries parsexml (text' r) = Inr ms \<and> k \<in> station_keys ms}"

lemma py_slice_window:
  assumes "0 < n" "0 \<le> i" "i < int (length l)"
  shows "py_slice l i (i + n) = take (nat n) (drop (nat i) l)"
proof (cases "i + n \<le> int (length l)")
  case True
  then show ?thesis
    using assms by (simp add: py_slice_def Let_def min_def)
next
  case False
  then have "length l - nat i \<le> nat n"
    using assms by linarith
  then show ?thesis
    using assms False by (simp add: py_slice_def Let_def min_def nat_diff_distrib')
qed

lemma chunks_range_groups:
  assumes "0 < n" "0 \<le> i"
  shows "map (\<lambda>j. py_slice l j (j + n)) (py_range i (int (length l)) n)
           = groups_of (nat n) (drop (nat i) l)"
  using assms
proof (induction i "int (length l)" n rule: py_range.induct)
  case (1 i step)
  show ?case
  proof (cases "i < int (length l)")
    case True
    have d: "drop (nat step) (drop (nat i) l) = drop (nat (i + step)) l"
      using 1(2,3) by (simp add: nat_add_distrib add.commute)
    have ne: "drop (nat i) l \<noteq> []"
      using True 1(3) by simp
    have ih: "map (\<lambda>j. py_slice l j (j + step)) (py_range (i + step) (int (length l)) step)
            = groups_of (nat step) (drop (nat (i + step)) l)"
      using 1 True by simp
    have a: "py_range i (int (length l)) step = i # py_range (i + step) (int (length l)) step"
      using True 1(2) by (subst py_range.simps) simp
    have b: "groups_of (nat step) (drop (nat i) l)
        = take (nat step) (drop (nat i) l) # groups_of (nat step) (drop (nat (i + step)) l)"
      using ne 1(2) d by (subst groups_of.simps) simp
    show ?thesis
      using True 1(2,3) by (simp add: a b ih py_slice_window)
  next
    case False
    then have e: "drop (nat i) l = []"
      using 1(3) by simp
    have a: "py_range i (int (length l)) step = []"
      using False 1(2) by (subst py_range.simps) simp
    have b: "groups_of (nat step) [] = []"
      by (subst groups_of.simps) simp
    show ?thesis
      by (simp add: a b e)
  qed
qed

lemma concat_groups_of: "0 < n \<Longrightarrow> concat (groups_of n xs) = xs"
proof (induction n xs rule: groups_of.induct)
  case (1 n xs)
  show ?case
  proof (cases "xs = []")
    case True
    then show ?thesis by (subst groups_of.simps) simp
  next
    case False
    then have "concat (groups_of n (drop n xs)) = drop n xs"
      using 1 by simp
    then show ?thesis
      using False 1(2) by (subst groups_of.simps) simp
  qed
qed

lemma groups_of_Nil: "groups_of n [] = []"
  by (subst groups_of.simps) simp

lemma groups_of_step:
  "0 < n \<Longrightarrow> xs \<noteq> [] \<Longrightarrow> groups_of n xs = take n xs # groups_of n (drop n xs)"
  by (subst groups_of.simps) simp

lemma ceil_div_Suc:
  fixes n :: nat
  assumes "0 < n" "0 < m"
  shows "(m + n - 1) div n = Suc ((m - 1) div n)"
proof -
  obtain k where k: "m = Suc k"
    using assms(2) by (cases m) auto
  have "(k + n) div n = Suc (k div n)"
    using assms(1) div_add_self2 [of n k] by simp
  then show ?thesis
    by (simp add: k)
qed

lemma length_groups_of: "0 < n \<Longrightarrow> length (groups_of n xs) = (length xs + n - 1) div n"
proof (induction n xs rule: groups_of.induct)
  case (1 n xs)
  show ?case
  proof (cases "xs = []")
    case True
    then show ?thesis
      using 1(2) by (simp add: groups_of_Nil)
  next
    case False
    then have ih: "length (groups_of n (drop n xs)) = (length (drop n xs) + n - 1) div n"
      using 1 by simp
    have c: "(length xs + n - 1) div n = Suc ((length xs - 1) div n)"
      using False 1(2) by (intro ceil_div_Suc) simp_all
    have "(length (drop n xs) + n - 1) div n = (length xs - 1) div n"
    proof (cases "n \<le> length xs")
      case True
      then have "length (drop n xs) + n - 1 = length xs - 1" by simp
      then show ?thesis by simp
    next
      case short: False
      then have "length (drop n xs) = 0" by simp
      then show ?thesis
        using short 1(2) by simp
    qed
    then show ?thesis
      using False 1(2) ih c by (simp add: groups_of_step)
  qed
qed

lemma groups_of_sizes:
  "0 < n \<Longrightarrow> g \<in> set (groups_of n xs) \<Longrightarrow> 0 < length g \<and> length g \<le> n"
proof (induction n xs rule: groups_of.induct)
  case (1 n xs)
  have ne: "xs \<noteq> []"
    using 1(3) by (auto simp: groups_of_Nil)
  then have "g = take n xs \<or> g \<in> set (groups_of n (drop n xs))"
    using 1(2,3) by (simp add: groups_of_step)
  then show ?case
    using 1(1,2) ne by auto
qed

lemma groups_of_full:
  "0 < n \<Longrightarrow> g \<in> set (butlast (groups_of n xs)) \<Longrightarrow> length g = n"
proof (induction n xs rule: groups_of.induct)
  case (1 n xs)
  have ne: "xs \<noteq> []"
    using 1(3) by (auto simp: groups_of_Nil)
  show ?case
  proof (cases "drop n xs = []")
    case True
    then show ?thesis
      using 1(2,3) ne by (simp add: groups_of_step groups_of_Nil)
  next
    case False
    then have le: "n \<le> length xs" by simp
    have "groups_of n (drop n xs) \<noteq> []"
      using False 1(2) by (simp add: groups_of_step)
    then have "g = take n xs \<or> g \<in> set (butlast (groups_of n (drop n xs)))"
      using 1(2,3) ne by (simp add: groups_of_step)
    then show ?thesis
      using 1(1,2) ne le by auto
  qed
qed

lemma ceiling_as_div:
  fixes L n :: int
  assumes "0 < n"
  shows "\<lceil>real_of_int L / real_of_int n\<rceil> = (L + n - 1) div n"
proof -
  define z where "z = (L + n - 1) div n"
  define r where "r = (L + n - 1) mod n"
  have e: "z * n + r = L + n - 1"
    by (simp add: z_def r_def)
  have r: "0 \<le> r" "r < n"
    using assms by (simp_all add: r_def)
  have le: "L \<le> z * n" and lt: "(z - 1) * n < L"
    using e r by (simp_all add: algebra_simps)
  have "real_of_int L \<le> real_of_int (z * n)"
    using le by linarith
  then have a: "real_of_int L / real_of_int n \<le> real_of_int z"
    using assms by (simp add: pos_divide_le_eq)
  have "real_of_int ((z - 1) * n) < real_of_int L"
    using lt by linarith
  then have b: "real_of_int z - 1 < real_of_int L / real_of_int n"
    using assms by (simp add: pos_less_divide_eq)
  show ?thesis
    unfolding z_def [symmetric] using a b by (intro ceiling_unique) simp_all
qed

lemma ascii_case_disjoint: "set ascii_uppercase \<inter> set ascii_lowercase = {}"
  by (simp add: ascii_lowercase_def ascii_uppercase_def)

lemma ascii_case_length: "length ascii_lowercase = length ascii_uppercase"
  by (simp add: ascii_lowercase_def ascii_uppercase_def)

lemma upper_char_range:
  "map_of (zip ascii_lowercase ascii_uppercase) c = Some u \<Longrightarrow> u \<in> set ascii_uppercase"
  by (auto dest!: map_of_SomeD set_zip_rightD)

lemma upper_not_lower:
  assumes "u \<in> set ascii_uppercase"
  shows "map_of (zip ascii_lowercase ascii_uppercase) u = None"
proof -
  have "u \<notin> set ascii_lowercase"
    using assms ascii_case_disjoint by blast
  then show ?thesis
    using ascii_case_length by (simp add: map_of_zip_is_None)
qed

lemma upper_char_idem: "upper_char (upper_char c) = upper_char c"
proof (cases "map_of (zip ascii_lowercase ascii_uppercase) c")
  case None
  then show ?thesis by (simp add: upper_char_def)
next
  case (Some u)
  then have "map_of (zip ascii_lowercase ascii_uppercase) u = None"
    by (intro upper_not_lower upper_char_range)
  with Some show ?thesis by (simp add: upper_char_def)
qed

lemma upper_idem: "upper (upper s) = upper s"
  by (simp add: upper_def upper_char_idem)

lemma upper_lower_letters:
  "list_all (\<lambda>c. upper_char (lower_char c) = upper_char c) ascii_uppercase"
  by (simp add: upper_char_def lower_char_def ascii_lowercase_def ascii_uppercase_def)

lemma upper_lower_char: "upper_char (lower_char c) = upper_char c"
proof (cases "c \<in> set ascii_uppercase")
  case True
  then show ?thesis
    using upper_lower_letters by (simp add: list_all_iff)
next
  case False
  then have "map_of (zip ascii_uppercase ascii_lowercase) c = None"
    using ascii_case_length by (simp add: map_of_zip_is_None)
  then show ?thesis by (simp add: lower_char_def)
qed

lemma upper_lower: "upper (lower s) = upper s"
  by (simp add: upper_def lower_def upper_lower_char)

text \<open>
  C2. For a chunk size \<open>n > 0\<close> and a list \<open>l\<close> of length \<open>L\<close>, \<open>chunks l n\<close> returns
  (it does not raise) exactly \<open>ceil(L / n)\<close> groups; every group but the last has length
  \<open>n\<close>, the last one is non-empty and no longer than \<open>n\<close>; the groups concatenated in
  order are \<open>l\<close>; and the empty list gives no group.
\<close>

theorem chunks_groups:
  assumes "0 < n"
  shows "\<exists>gs. chunks l n = Inr gs
           \<and> int (length gs) = \<lceil>real (length l) / real_of_int n\<rceil>
           \<and> (\<forall>g \<in> set (butlast gs). int (length g) = n)
           \<and> (\<forall>g \<in> set gs. 0 < length g \<and> int (length g) \<le> n)
           \<and> concat gs = l
           \<and> chunks ([] :: 'a list) n = Inr []"
proof -
  define gs where "gs = groups_of (nat n) l"
  have pos: "0 < nat n"
    using assms by simp
  have c: "chunks l n = Inr gs"
    using assms chunks_range_groups [of n 0 l] by (simp add: chunks_def gs_def)
  have "length gs = (length l + nat n - 1) div nat n"
    unfolding gs_def using pos by (rule length_groups_of)
  then have "int (length gs) = (int (length l) + n - 1) div n"
    using assms by (simp add: zdiv_int of_nat_diff)
  then have len: "int (length gs) = \<lceil>real (length l) / real_of_int n\<rceil>"
    using assms ceiling_as_div [of n "int (length l)"] by simp
  have full: "\<forall>g \<in> set (butlast gs). int (length g) = n"
    using groups_of_full [OF pos] assms unfolding gs_def by fastforce
  have sizes: "\<forall>g \<in> set gs. 0 < length g \<and> int (length g) \<le> n"
    using groups_of_sizes [OF pos] assms unfolding gs_def by fastforce
  have cat: "concat gs = l"
    unfolding gs_def using pos by (rule concat_groups_of)
  have emp: "chunks ([] :: 'a list) n = Inr []"
    using assms by (simp add: chunks_def py_range.simps)
  show ?thesis
    using c len full sizes cat emp by blast
qed

theorem chunks_groups_witness:
  "(0::int) < 2
     \<and> chunks [1, 2, 3, 4, 5 :: nat] 2 = Inr [[1, 2], [3, 4], [5]]
     \<and> (\<exists>gs. chunks [1, 2, 3, 4, 5 :: nat] 2 = Inr gs
           \<and> int (length gs) = \<lceil>real (length [1, 2, 3, 4, 5 :: nat]) / real_of_int 2\<rceil>
           \<and> concat gs = [1, 2, 3, 4, 5])"
proof -
  have h: "(0::int) < 2" by simp
  have e: "chunks [1, 2, 3, 4, 5 :: nat] 2 = Inr [[1, 2], [3, 4], [5]]"
    by (simp add: chunks_def py_range.simps py_slice_def)
  show ?thesis
    using h e chunks_groups [OF h, of "[1, 2, 3, 4, 5 :: nat]"] by blast
qed
lemma split_acc_word:
  "list_all (\<lambda>c. \<not> is_space c) x \<Longrightarrow> split_acc cur (x @ rest) = split_acc (cur @ x) rest"
  by (induction x arbitrary: cur) auto

lemma py_split_join:
  assumes "list_all (\<lambda>x. x \<noteq> [] \<and> list_all (\<lambda>c. \<not> is_space c) x) xs"
  shows "py_split (join '' '' xs) = xs"
  using assms unfolding py_split_def
proof (induction "'' ''" xs rule: join.induct)
  case 1
  then show ?case by simp
next
  case (2 x)
  then show ?case
    using split_acc_word [of x "[]" "[]"] by simp
next
  case (3 x y ys)
  have "split_acc [] (x @ '' '' @ join '' '' (y # ys)) = split_acc x ('' '' @ join '' '' (y # ys))"
    using 3(2) split_acc_word [of x "[]"] by simp
  also have "\<dots> = x # split_acc [] (join '' '' (y # ys))"
    using 3(2) by (simp add: is_space_def)
  finally show ?case
    using 3 by simp
qed

lemma ACCEPTED_CODES_words:
  "c \<in> ACCEPTED_CODES \<Longrightarrow> c \<noteq> [] \<and> list_all (\<lambda>ch. \<not> is_space ch) c"
  unfolding ACCEPTED_CODES_def is_space_def by auto

lemma requests_of_append: "requests_of (w @ v) = requests_of w @ requests_of v"
  by (induction w rule: requests_of.induct) auto

lemma sleeps_of_append: "sleeps_of (w @ v) = sleeps_of w @ sleeps_of v"
  by (induction w rule: sleeps_of.induct) auto

lemma issued_append: "issued (w @ v) = issued w + issued v"
  by (simp add: issued_def requests_of_append)

text \<open>
  C7. Given a configuration that holds the credentials, constructing the IFIS adapter
  does not raise whatever the requested codes are, and its data-request payload lists
  exactly the requested codes that are in \<open>ACCEPTED_CODES\<close>, in order, separated by
  blanks: splitting the \<open>MetLocations\<close> field gives back the allow-listed codes and
  nothing else. The data request that \<open>get_metar_info\<close> posts carries that payload.
\<close>

theorem IFIS_payload_allow_listed:
  assumes "py_getitem config ''ifis'' = Inr sec"
    and "py_getitem sec ''username'' = Inr u"
    and "py_getitem sec ''password'' = Inr p"
  shows "\<exists>self locations.
           IFIS_init codes config = Inr self
           \<and> data_payload self = [(''METAR'', PInt 1), (''MetLocations'', PStr locations)]
           \<and> py_split locations = filter (\<lambda>code. code \<in> ACCEPTED_CODES) codes
           \<and> set (py_split locations) = set codes \<inter> ACCEPTED_CODES
           \<and> requests_of (snd (IFIS_get_metar_info nt self []))
               = (if nt 0 (POST IFIS_LOGIN_URL (login_payload self)) = None
                  then [POST IFIS_LOGIN_URL (login_payload self)]
                  else [POST IFIS_LOGIN_URL (login_payload self),
                        POST IFIS_URL [(''METAR'', PInt 1), (''MetLocations'', PStr locations)]])"
proof -
  define locations where "locations = join '' '' (filter (\<lambda>code. code \<in> ACCEPTED_CODES) codes)"
  define self where "self = \<lparr> ifis_airport_codes = locations, username = u, password = p,
     login_payload = [(''UserName'', u), (''Password'', p)],
     data_payload = [(''METAR'', PInt 1), (''MetLocations'', PStr locations)] \<rparr>"
  have init: "IFIS_init codes config = Inr self"
    using assms by (simp add: IFIS_init_def exn_bind_def Let_def self_def locations_def)
  have "list_all (\<lambda>x. x \<noteq> [] \<and> list_all (\<lambda>c. \<not> is_space c) x)
          (filter (\<lambda>code. code \<in> ACCEPTED_CODES) codes)"
    by (auto simp: list_all_iff dest!: ACCEPTED_CODES_words)
  then have split: "py_split locations = filter (\<lambda>code. code \<in> ACCEPTED_CODES) codes"
    unfolding locations_def by (rule py_split_join)
  have mem: "set (py_split locations) = set codes \<inter> ACCEPTED_CODES"
    using split by auto
  have reqs: "requests_of (snd (IFIS_get_metar_info nt self []))
               = (if nt 0 (POST IFIS_LOGIN_URL (login_payload self)) = None
                  then [POST IFIS_LOGIN_URL (login_payload self)]
                  else [POST IFIS_LOGIN_URL (login_payload self),
                        POST IFIS_URL [(''METAR'', PInt 1), (''MetLocations'', PStr locations)]])"
    by (auto simp: IFIS_get_metar_info_def send_def issued_def self_def requests_of_append
             split: option.splits)
  show ?thesis
    using init split mem reqs by (intro exI [of _ self] exI [of _ locations]) (simp add: self_def)
qed

theorem IFIS_payload_allow_listed_witness:
  "py_getitem (PDict [(''ifis'', PDict [(''username'', PStr ''u''), (''password'', PStr ''p'')])]) ''ifis''
       = Inr (PDict [(''username'', PStr ''u''), (''password'', PStr ''p'')])
   \<and> py_getitem (PDict [(''username'', PStr ''u''), (''password'', PStr ''p'')]) ''username'' = Inr (PStr ''u'')
   \<and> py_getitem (PDict [(''username'', PStr ''u''), (''password'', PStr ''p'')]) ''password'' = Inr (PStr ''p'')
   \<and> (\<exists>self. IFIS_init [''NZCH'', ''YBBN'', ''nzaa'', ''NZWB'']
                  (PDict [(''ifis'', PDict [(''username'', PStr ''u''), (''password'', PStr ''p'')])]) = Inr self
          \<and> data_payload self = [(''METAR'', PInt 1), (''MetLocations'', PStr ''NZCH NZWB'')]
          \<and> py_split ''NZCH NZWB'' = [''NZCH'', ''NZWB''])"
proof -
  let ?sec = "PDict [(''username'', PStr ''u''), (''password'', PStr ''p'')]"
  let ?cfg = "PDict [(''ifis'', ?sec)]"
  have h1: "py_getitem ?cfg ''ifis'' = Inr ?sec" by simp
  have h2: "py_getitem ?sec ''username'' = Inr (PStr ''u'')" by simp
  have h3: "py_getitem ?sec ''password'' = Inr (PStr ''p'')" by simp
  have f: "filter (\<lambda>code. code \<in> ACCEPTED_CODES) [''NZCH'', ''YBBN'', ''nzaa'', ''NZWB'']
             = [''NZCH'', ''NZWB'']"
    by (simp add: ACCEPTED_CODES_def)
  obtain self locations where
    s: "IFIS_init [''NZCH'', ''YBBN'', ''nzaa'', ''NZWB''] ?cfg = Inr self"
       "data_payload self = [(''METAR'', PInt 1), (''MetLocations'', PStr locations)]"
       "py_split locations = filter (\<lambda>code. code \<in> ACCEPTED_CODES) [''NZCH'', ''YBBN'', ''nzaa'', ''NZWB'']"
    using IFIS_payload_allow_listed [OF h1 h2 h3, of "[''NZCH'', ''YBBN'', ''nzaa'', ''NZWB'']"]
    by blast
  have "locations = ''NZCH NZWB''"
    using s(1,2) f by (simp add: IFIS_init_def exn_bind_def Let_def) auto
  then show ?thesis
    using h1 h2 h3 s f by auto
qed

lemma match_here_groups:
  "match_here ts s = Some ((code, metar), rest)
     \<Longrightarrow> length code = 4 \<and> list_all is_word_char code \<and> take 4 metar = code"
  by (auto simp: match_here_def Let_def split: if_splits option.splits)

lemma finditer_groups:
  "(code, metar) \<in> set (finditer ts s)
     \<Longrightarrow> length code = 4 \<and> list_all is_word_char code \<and> take 4 metar = code"
proof (induction ts s rule: finditer.induct)
  case (1 ts s)
  show ?case
  proof (cases "match_here ts s")
    case None
    then have e: "finditer ts s = (case s of [] \<Rightarrow> [] | c # cs \<Rightarrow> finditer ts cs)"
      by (subst finditer.simps) simp
    show ?thesis
    proof (cases s)
      case Nil
      then show ?thesis using e 1(3) by simp
    next
      case (Cons c cs)
      have "(code, metar) \<in> set (finditer ts cs)"
        using e 1(3) Cons by simp
      then show ?thesis by (rule 1(1) [OF None Cons])
    qed
  next
    case (Some a)
    obtain g rest where a: "a = (g, rest)" by (cases a)
    have "finditer ts s = g # finditer ts rest"
      using Some a by (subst finditer.simps) simp
    then have "(code, metar) = g \<or> (code, metar) \<in> set (finditer ts rest)"
      using 1(3) by auto
    then show ?thesis
    proof
      assume "(code, metar) = g"
      then show ?thesis
        using Some a match_here_groups [of ts s code metar rest] by simp
    next
      assume "(code, metar) \<in> set (finditer ts rest)"
      then show ?thesis
        by (rule 1(2) [OF Some a [symmetric]])
    qed
  qed
qed

lemma scrape_store_keys:
  assumes "scrape_store metars ms k = Some v"
    and "\<And>k v. metars k = Some v \<Longrightarrow> key_of_raw_text k v"
    and "\<And>code metar. (code, metar) \<in> set ms
           \<Longrightarrow> length code = 4 \<and> list_all is_word_char code \<and> take 4 metar = code"
  shows "key_of_raw_text k v"
  using assms
proof (induction metars ms rule: scrape_store.induct)
  case (1 metars)
  then show ?case by simp
next
  case (2 metars code metar matches)
  show ?case
  proof (rule 2(1))
    show "scrape_store (metars(upper code \<mapsto> PDict [(''raw_text'', PStr metar)])) matches k = Some v"
      using 2(2) by simp
  next
    fix k' v'
    assume "(metars(upper code \<mapsto> PDict [(''raw_text'', PStr metar)])) k' = Some v'"
    then show "key_of_raw_text k' v'"
      using 2(3) 2(4) [of code metar] by (auto simp: key_of_raw_text_def split: if_splits)
  next
    fix c m
    assume "(c, m) \<in> set matches"
    then show "length c = 4 \<and> list_all is_word_char c \<and> take 4 m = c"
      using 2(4) [of c m] by simp
  qed
qed

lemma scrape_page_keys:
  "scrape_store Map.empty (finditer ts s) k = Some v \<Longrightarrow> key_of_raw_text k v"
  by (erule scrape_store_keys) (auto dest: finditer_groups)

text \<open>
  C10. In a mapping returned by the BOM or the IFIS adapter, the record under a key
  \<open>k\<close> is \<open>{'raw_text': raw}\<close> where \<open>raw\<close> begins with four word characters whose
  upper-casing is \<open>k\<close>.
\<close>

theorem scrape_key_is_raw_text_prefix:
  assumes "BOM_get_metar_info nt b w = (Inr metars, w')
             \<or> IFIS_get_metar_info nt i w = (Inr metars, w')"
    and "metars k = Some v"
  shows "\<exists>raw. v = PDict [(''raw_text'', PStr raw)]
           \<and> length (take 4 raw) = 4 \<and> list_all is_word_char (take 4 raw)
           \<and> upper (take 4 raw) = k"
proof -
  obtain ts s where "metars = scrape_store Map.empty (finditer ts s)"
    using assms(1)
    by (auto simp: BOM_get_metar_info_def IFIS_get_metar_info_def split: prod.splits option.splits)
  then have "key_of_raw_text k v"
    using assms(2) scrape_page_keys by simp
  then show ?thesis
    by (simp add: key_of_raw_text_def)
qed

theorem scrape_key_is_raw_text_prefix_witness:
  "BOM_get_metar_info (\<lambda>i rq. Some \<lparr> status_code = 200, text' = ''METAR yssy 221856Z <br />'' \<rparr>)
       (BOM_init [''YSSY'']) []
     = (Inr [''YSSY'' \<mapsto> PDict [(''raw_text'', PStr ''yssy 221856Z '')]],
        [Request (POST BOM_URL (BOM_payload (BOM_init [''YSSY''])))])
   \<and> [''YSSY'' \<mapsto> PDict [(''raw_text'', PStr ''yssy 221856Z '')]] ''YSSY''
        = Some (PDict [(''raw_text'', PStr ''yssy 221856Z '')])
   \<and> (\<exists>raw. PDict [(''raw_text'', PStr ''yssy 221856Z '')] = PDict [(''raw_text'', PStr raw)]
          \<and> length (take 4 raw) = 4 \<and> upper (take 4 raw) = ''YSSY'')"
proof -
  let ?nt = "\<lambda>(i::nat) (rq::request). Some \<lparr> status_code = 200, text' = ''METAR yssy 221856Z <br />'' \<rparr>"
  let ?m = "[''YSSY'' \<mapsto> PDict [(''raw_text'', PStr ''yssy 221856Z '')]]"
  have f: "finditer BOM_terminators ''METAR yssy 221856Z <br />'' = [(''yssy'', ''yssy 221856Z '')]"
    by code_simp
  have u: "upper ''yssy'' = ''YSSY''"
    by code_simp
  have run: "BOM_get_metar_info ?nt (BOM_init [''YSSY'']) []
               = (Inr ?m, [Request (POST BOM_URL (BOM_payload (BOM_init [''YSSY''])))])"
    by (simp add: BOM_get_metar_info_def send_def f u)
  have look: "?m ''YSSY'' = Some (PDict [(''raw_text'', PStr ''yssy 221856Z '')])"
    by simp
  have d: "BOM_get_metar_info ?nt (BOM_init [''YSSY'']) []
               = (Inr ?m, [Request (POST BOM_URL (BOM_payload (BOM_init [''YSSY''])))])
           \<or> IFIS_get_metar_info ?nt i []
               = (Inr ?m, [Request (POST BOM_URL (BOM_payload (BOM_init [''YSSY''])))])" for i
    using run by simp
  show ?thesis
    using run look scrape_key_is_raw_text_prefix [OF d look] by blast
qed
lemma find_coordinates_codes:
  "find_coordinates ops rows cs = Inr self \<Longrightarrow> sv_airport_codes self = cs"
  by (auto simp: find_coordinates_def exn_bind_def split: sum.splits prod.splits)

lemma SkyVector_store_dom:
  "SkyVector_store cs metars items = Inr metars'
     \<Longrightarrow> dom metars' \<subseteq> dom metars \<union> upper ` set cs"
proof (induction cs metars items rule: SkyVector_store.induct)
  case (1 codes metars)
  then show ?case by simp
next
  case (2 codes metars item items)
  obtain s where s: "py_getitem item ''s'' = Inr s"
    using 2(3) by (cases "py_getitem item ''s''") auto
  show ?case
  proof (cases "s \<in> set (map PStr codes)")
    case False
    then show ?thesis
      using 2(2) [OF s False] 2(3) s by simp
  next
    case True
    then obtain c where c: "s = PStr c" "c \<in> set codes"
      by auto
    obtain m where m: "py_getitem item ''m'' = Inr m"
      using 2(3) s True by (cases "py_getitem item ''m''") auto
    have k: "exn_bind (py_getitem item ''s'') py_upper = Inr (upper c)"
      using s c by (simp add: exn_bind_def)
    have "SkyVector_store codes (metars(upper c \<mapsto> PDict [(''raw_text'', m)])) items = Inr metars'"
      using 2(3) s True m k by simp
    then have "dom metars' \<subseteq> dom (metars(upper c \<mapsto> PDict [(''raw_text'', m)])) \<union> upper ` set codes"
      by (rule 2(1) [OF s True m k])
    then show ?thesis
      using c by auto
  qed
qed

lemma SkyVector_keys_in_scope:
  assumes "SkyVector_init ops rows codes = Inr self"
    and "SkyVector_get_metar_info nt json self w = (Inr metars, w')"
  shows "dom metars \<subseteq> set (map upper codes)"
proof -
  have cs: "sv_airport_codes self = map upper codes"
    using assms(1) unfolding SkyVector_init_def by (rule find_coordinates_codes)
  obtain items where "SkyVector_store (map upper codes) Map.empty items = Inr metars"
    using assms(2) cs
    by (auto simp: SkyVector_get_metar_info_def exn_bind_def split: prod.splits sum.splits)
  then have "dom metars \<subseteq> dom (Map.empty :: string \<rightharpoonup> pyval) \<union> upper ` set (map upper codes)"
    by (rule SkyVector_store_dom)
  then show ?thesis
    by (auto simp: upper_idem)
qed

lemma query_first_ok:
  assumes "nt (issued w) (GET url) = Some r" and "raise_for_status r = Inr ()"
  shows "query nt url w = (Inr r, w @ [LogInfo url, Request (GET url)])"
  using assms
  by (simp add: query_def retry_call.simps query_body_def send_def issued_def requests_of_append)

lemma query_body_fails:
  assumes "attempt_fails nt (issued w) url"
  shows "query_body nt url w
           = (Inl (attempt_error nt (issued w) url),
              w @ [LogInfo url, Request (GET url), LogException ''Metar query failure.''])"
  using assms
  by (auto simp: query_body_def send_def issued_def requests_of_append attempt_fails_def
        attempt_error_def raise_for_status_def split: option.splits)

lemma query_body_ok:
  assumes "nt (issued w) (GET url) = Some r"
    and "\<not> (400 \<le> status_code r \<and> status_code r < 600)"
  shows "query_body nt url w = (Inr r, w @ [LogInfo url, Request (GET url)])"
  using assms
  by (auto simp: query_body_def send_def issued_def requests_of_append raise_for_status_def)

lemma retried_attempts_0: "retried_attempts url a 0 = []"
  by (simp add: retried_attempts_def)

lemma upt_shift: "[a..<a + Suc K] = a # [Suc a..<Suc a + K]"
  by (simp del: upt_Suc add: upt_conv_Cons)

lemma retried_attempts_Suc:
  "retried_attempts url a (Suc K) = retried_attempt url a @ retried_attempts url (Suc a) K"
  unfolding retried_attempts_def upt_shift by simp

lemma requests_of_retried: "requests_of (retried_attempts url a K) = replicate K (GET url)"
  by (induction K arbitrary: a)
     (simp_all add: retried_attempts_0 retried_attempts_Suc requests_of_append retried_attempt_def)

lemma sleeps_of_retried:
  "sleeps_of (retried_attempts url a K) = map (exponential_sleep 1000 10000) [a..<a + K]"
proof (induction K arbitrary: a)
  case 0
  then show ?case by (simp add: retried_attempts_0)
next
  case (Suc K)
  show ?case
    unfolding upt_shift using Suc [of "Suc a"]
    by (simp add: retried_attempts_Suc sleeps_of_append retried_attempt_def)
qed

lemma issued_retried_attempt: "issued (w @ retried_attempt url a) = Suc (issued w)"
  by (simp add: issued_def requests_of_append retried_attempt_def)

lemma retry_fails_then_ok:
  assumes "\<forall>j<K. attempt_fails nt (issued w + j) url"
    and "nt (issued w + K) (GET url) = Some r"
    and "\<not> (400 \<le> status_code r \<and> status_code r < 600)"
    and "a + K \<le> 10"
  shows "retry_call 1000 10000 10 (query_body nt url) a w
           = (Inr r, w @ retried_attempts url a K @ [LogInfo url, Request (GET url)])"
  using assms
proof (induction K arbitrary: a w)
  case 0
  then show ?case
    by (subst retry_call.simps) (simp add: query_body_ok retried_attempts_0)
next
  case (Suc K)
  have f: "attempt_fails nt (issued w) url"
    using Suc.prems(1) by force
  have lt: "\<not> 10 \<le> a"
    using Suc.prems(4) by simp
  let ?w1 = "w @ retried_attempt url a"
  have "retry_call 1000 10000 10 (query_body nt url) (Suc a) ?w1
          = (Inr r, ?w1 @ retried_attempts url (Suc a) K @ [LogInfo url, Request (GET url)])"
  proof (rule Suc.IH)
    show "\<forall>j<K. attempt_fails nt (issued ?w1 + j) url"
      using Suc.prems(1) by (auto simp: issued_retried_attempt)
    show "nt (issued ?w1 + K) (GET url) = Some r"
      using Suc.prems(2) by (simp add: issued_retried_attempt)
    show "\<not> (400 \<le> status_code r \<and> status_code r < 600)"
      by (rule Suc.prems(3))
    show "Suc a + K \<le> 10"
      using Suc.prems(4) by simp
  qed
  then show ?case
    using lt
    by (subst retry_call.simps)
       (simp add: query_body_fails [OF f] retried_attempts_Suc retried_attempt_def)
qed

lemma retry_all_fail:
  assumes "\<forall>j\<le>K. attempt_fails nt (issued w + j) url"
    and "a + K = 10"
  shows "retry_call 1000 10000 10 (query_body nt url) a w
           = (Inl (attempt_error nt (issued w + K) url),
              w @ retried_attempts url a K
                @ [LogInfo url, Request (GET url), LogException ''Metar query failure.''])"
  using assms
proof (induction K arbitrary: a w)
  case 0
  then have f: "attempt_fails nt (issued w) url"
    by simp
  show ?case
    using 0(2) by (subst retry_call.simps) (simp add: query_body_fails [OF f] retried_attempts_0)
next
  case (Suc K)
  have f: "attempt_fails nt (issued w) url"
    using Suc.prems(1) by force
  have lt: "\<not> 10 \<le> a"
    using Suc.prems(2) by simp
  let ?w1 = "w @ retried_attempt url a"
  have "retry_call 1000 10000 10 (query_body nt url) (Suc a) ?w1
          = (Inl (attempt_error nt (issued ?w1 + K) url),
             ?w1 @ retried_attempts url (Suc a) K
               @ [LogInfo url, Request (GET url), LogException ''Metar query failure.''])"
  proof (rule Suc.IH)
    show "\<forall>j\<le>K. attempt_fails nt (issued ?w1 + j) url"
      using Suc.prems(1) by (auto simp: issued_retried_attempt)
    show "Suc a + K = 10"
      using Suc.prems(2) by simp
  qed
  then show ?case
    using lt
    by (subst retry_call.simps)
       (simp add: query_body_fails [OF f] retried_attempts_Suc retried_attempt_def
          issued_def requests_of_append)
qed

lemma exponential_sleep_min: "exponential_sleep 1000 10000 k = min (1000 * 2 ^ k) 10000"
  by (simp add: exponential_sleep_def Let_def min_def)

lemma query_fails_then_ok:
  assumes "\<forall>j<K. attempt_fails nt (issued w + j) url"
    and "nt (issued w + K) (GET url) = Some r"
    and "\<not> (400 \<le> status_code r \<and> status_code r < 600)"
    and "K < 10"
  shows "query nt url w
           = (Inr r, w @ retried_attempts url 1 K @ [LogInfo url, Request (GET url)])"
  unfolding query_def using assms by (intro retry_fails_then_ok) simp_all

lemma query_all_fail:
  assumes "\<forall>j<10. attempt_fails nt (issued w + j) url"
  shows "query nt url w
           = (Inl (attempt_error nt (issued w + 9) url),
              w @ retried_attempts url 1 9
                @ [LogInfo url, Request (GET url), LogException ''Metar query failure.''])"
  unfolding query_def using assms by (intro retry_all_fail) simp_all

lemma NOAA_store_upper:
  "NOAA_store metars ms = Inr metars' \<Longrightarrow> (\<forall>k \<in> dom metars. upper k = k)
     \<Longrightarrow> (\<forall>k \<in> dom metars'. upper k = k)"
proof (induction metars ms rule: NOAA_store.induct)
  case (1 metars)
  then show ?case by simp
next
  case (2 metars m ms)
  obtain k where k: "exn_bind (py_getitem m ''station_id'') py_upper = Inr k"
    using 2(2) by (cases "exn_bind (py_getitem m ''station_id'') py_upper") auto
  then obtain s where "py_upper s = Inr k"
    by (auto simp: exn_bind_def split: sum.splits)
  then have "upper k = k"
    by (cases s) (auto simp: upper_idem)
  then have "\<forall>k' \<in> dom (metars(k \<mapsto> m)). upper k' = k'"
    using 2(3) by auto
  moreover have "NOAA_store (metars(k \<mapsto> m)) ms = Inr metars'"
    using 2(2) k by simp
  ultimately show ?case
    using 2(1) [OF k] by blast
qed

lemma NOAA_loop_upper:
  "NOAA_loop nt px sub cs metars w = (Inr metars', w') \<Longrightarrow> (\<forall>k \<in> dom metars. upper k = k)
     \<Longrightarrow> (\<forall>k \<in> dom metars'. upper k = k)"
proof (induction cs arbitrary: metars w)
  case Nil
  then show ?case by simp
next
  case (Cons chunk rest)
  obtain r w1 where q: "query nt (NOAA_URL sub (join '','' chunk)) w = (Inr r, w1)"
    using Cons.prems(1) by (auto split: prod.splits sum.splits)
  obtain ms where ms: "NOAA_entries px (text' r) = Inr ms"
    using Cons.prems(1) q by (auto split: sum.splits)
  obtain metars1 where st: "NOAA_store metars ms = Inr metars1"
    using Cons.prems(1) q ms by (auto split: sum.splits)
  have "NOAA_loop nt px sub rest metars1 (w1 @ [Sleep 1000]) = (Inr metars', w')"
    using Cons.prems(1) q ms st by simp
  moreover have "\<forall>k \<in> dom metars1. upper k = k"
    using st Cons.prems(2) by (rule NOAA_store_upper)
  ultimately show ?case
    by (rule Cons.IH)
qed

lemma key_of_raw_text_upper: "key_of_raw_text k v \<Longrightarrow> upper k = k"
  by (auto simp: key_of_raw_text_def upper_idem)

lemma KO61_keys: "KO61_get_metar_info b = (Inr (Some metars), tr) \<Longrightarrow> dom metars = {''KO61''}"
  by (auto simp: KO61_get_metar_info_def KO61_try_def KO61_extract_def Let_def
           split: option.splits sum.splits prod.splits raised.splits pyval.splits if_splits)

lemma upper_KO61: "upper ''KO61'' = ''KO61''"
  by code_simp

lemma result_keys_upper:
  assumes "NOAA_get_metar_info nt parsexml noaa w = (Inr metars, w')
           \<or> SkyVector_get_metar_info nt json sv w = (Inr metars, w')
           \<or> BOM_get_metar_info nt bom w = (Inr metars, w')
           \<or> IFIS_get_metar_info nt ifis w = (Inr metars, w')
           \<or> KO61_get_metar_info b = (Inr (Some metars), tr)"
  shows "SkyVector_init ops rows (map lower codes) = SkyVector_init ops rows (map upper codes)
         \<and> (\<forall>k \<in> dom metars. upper k = k)"
proof -
  have "map upper (map lower codes) = map upper (map upper codes)"
    by (simp add: upper_lower upper_idem)
  then have init: "SkyVector_init ops rows (map lower codes) = SkyVector_init ops rows (map upper codes)"
    by (simp only: SkyVector_init_def)
  have keys: "\<forall>k \<in> dom metars. upper k = k"
    using assms
  proof (elim disjE)
    assume "NOAA_get_metar_info nt parsexml noaa w = (Inr metars, w')"
    then obtain cs where "NOAA_loop nt parsexml (subdomain noaa) cs Map.empty w = (Inr metars, w')"
      by (auto simp: NOAA_get_metar_info_def split: sum.splits)
    then show ?thesis
      by (rule NOAA_loop_upper) simp
  next
    assume "SkyVector_get_metar_info nt json sv w = (Inr metars, w')"
    then obtain items where "SkyVector_store (sv_airport_codes sv) Map.empty items = Inr metars"
      by (auto simp: SkyVector_get_metar_info_def exn_bind_def split: prod.splits sum.splits)
    then have "dom metars \<subseteq> dom (Map.empty :: string \<rightharpoonup> pyval) \<union> upper ` set (sv_airport_codes sv)"
      by (rule SkyVector_store_dom)
    then show ?thesis
      by (auto simp: upper_idem)
  next
    assume "BOM_get_metar_info nt bom w = (Inr metars, w')"
    then obtain ts s where "metars = scrape_store Map.empty (finditer ts s)"
      by (auto simp: BOM_get_metar_info_def split: prod.splits option.splits)
    then show ?thesis
      using scrape_page_keys key_of_raw_text_upper by blast
  next
    assume "IFIS_get_metar_info nt ifis w = (Inr metars, w')"
    then obtain ts s where "metars = scrape_store Map.empty (finditer ts s)"
      by (auto simp: IFIS_get_metar_info_def split: prod.splits option.splits)
    then show ?thesis
      using scrape_page_keys key_of_raw_text_upper by blast
  next
    assume "KO61_get_metar_info b = (Inr (Some metars), tr)"
    then have "dom metars = {''KO61''}"
      by (rule KO61_keys)
    then show ?thesis
      by (simp add: upper_KO61)
  qed
  show ?thesis
    using init keys by simp
qed

lemma replicate_ten: "y # replicate 9 y = replicate 10 y"
  by (simp add: numeral_eq_Suc)

lemma upt_one_ten: "[1..<10] = [1, 2, 3, 4, 5, 6, 7, 8, 9 :: nat]"
  by code_simp

lemma sleeps_of_nine:
  "map (exponential_sleep 1000 10000) [1..<10]
     = [2000, 4000, 8000, 10000, 10000, 10000, 10000, 10000, 10000]"
  unfolding upt_one_ten by (simp add: exponential_sleep_def)

text \<open>
  C3, as amended. \<open>_query\<close> retries an attempt that fails, whether \<open>requests.get\<close>
  raised (a transport failure) or the status was 4xx or 5xx. After the failed attempt
  number \<open>k\<close> it waits \<open>min (1000 * 2 ^ k) 10000\<close> milliseconds: 2, 4 and 8 seconds,
  then 10 seconds each time. If the first \<open>K < 10\<close> attempts fail and the next one
  succeeds, \<open>_query\<close> returns that response after \<open>K + 1\<close> attempts. If ten attempts
  fail, there are exactly ten attempts and the exception of the tenth is raised.
\<close>

theorem query_retry_policy:
  assumes "\<forall>j<K. attempt_fails nt (issued w + j) url"
  shows "(K < 10 \<and> nt (issued w + K) (GET url) = Some r
            \<and> \<not> (400 \<le> status_code r \<and> status_code r < 600)
          \<longrightarrow> (\<exists>evs. query nt url w = (Inr r, w @ evs)
                 \<and> requests_of evs = replicate (K + 1) (GET url)
                 \<and> sleeps_of evs = map (\<lambda>k. min (1000 * 2 ^ k) 10000) [1..<K + 1]))
       \<and> (K = 10
          \<longrightarrow> (\<exists>evs. query nt url w = (Inl (attempt_error nt (issued w + 9) url), w @ evs)
                 \<and> requests_of evs = replicate 10 (GET url)
                 \<and> sleeps_of evs
                     = [2000, 4000, 8000, 10000, 10000, 10000, 10000, 10000, 10000]))"
proof (intro conjI impI)
  assume ok: "K < 10 \<and> nt (issued w + K) (GET url) = Some r
                \<and> \<not> (400 \<le> status_code r \<and> status_code r < 600)"
  let ?evs = "retried_attempts url 1 K @ [LogInfo url, Request (GET url)]"
  have "query nt url w = (Inr r, w @ ?evs)"
    using assms ok by (intro query_fails_then_ok) simp_all
  moreover have "requests_of ?evs = replicate (K + 1) (GET url)"
    by (simp add: requests_of_append requests_of_retried replicate_append_same)
  moreover have "sleeps_of ?evs = map (\<lambda>k. min (1000 * 2 ^ k) 10000) [1..<K + 1]"
    by (simp add: sleeps_of_append sleeps_of_retried exponential_sleep_min)
  ultimately show "\<exists>evs. query nt url w = (Inr r, w @ evs)
                 \<and> requests_of evs = replicate (K + 1) (GET url)
                 \<and> sleeps_of evs = map (\<lambda>k. min (1000 * 2 ^ k) 10000) [1..<K + 1]"
    by blast
next
  assume K: "K = 10"
  let ?evs = "retried_attempts url 1 9
                @ [LogInfo url, Request (GET url), LogException ''Metar query failure.'']"
  have "query nt url w = (Inl (attempt_error nt (issued w + 9) url), w @ ?evs)"
    using assms K by (intro query_all_fail) simp
  moreover have "requests_of ?evs = replicate 10 (GET url)"
    by (simp add: requests_of_append requests_of_retried replicate_append_same replicate_ten)
  moreover have "sleeps_of ?evs = [2000, 4000, 8000, 10000, 10000, 10000, 10000, 10000, 10000]"
    using sleeps_of_nine by (simp add: sleeps_of_append sleeps_of_retried)
  ultimately show "\<exists>evs. query nt url w = (Inl (attempt_error nt (issued w + 9) url), w @ evs)
                 \<and> requests_of evs = replicate 10 (GET url)
                 \<and> sleeps_of evs
                     = [2000, 4000, 8000, 10000, 10000, 10000, 10000, 10000, 10000]"
    by blast
qed

theorem query_retry_policy_witness:
  "attempt_fails (\<lambda>i rq. if i = 0 then None
                    else Some \<lparr> status_code = (if i = 1 then 503 else 200), text' = [] \<rparr>) 0 ''u''
   \<and> attempt_fails (\<lambda>i rq. if i = 0 then None
                    else Some \<lparr> status_code = (if i = 1 then 503 else 200), text' = [] \<rparr>) 1 ''u''
   \<and> (\<exists>evs. query (\<lambda>i rq. if i = 0 then None
                    else Some \<lparr> status_code = (if i = 1 then 503 else 200), text' = [] \<rparr>) ''u'' []
               = (Inr \<lparr> status_code = 200, text' = [] \<rparr>, evs)
          \<and> requests_of evs = [GET ''u'', GET ''u'', GET ''u'']
          \<and> sleeps_of evs = [2000, 4000])
   \<and> (\<exists>evs. query (\<lambda>i rq. None) ''u'' [] = (Inl RequestException, evs)
          \<and> requests_of evs = replicate 10 (GET ''u'')
          \<and> sleeps_of evs = [2000, 4000, 8000, 10000, 10000, 10000, 10000, 10000, 10000])"
proof -
  let ?nt = "\<lambda>(i::nat) (rq::request). if i = 0 then None
                    else Some \<lparr> status_code = (if i = 1 then 503 else 200), text' = [] \<rparr>"
  let ?down = "\<lambda>(i::nat) (rq::request). (None :: response option)"
  have f0: "attempt_fails ?nt 0 ''u''" and f1: "attempt_fails ?nt 1 ''u''"
    by (simp_all add: attempt_fails_def)
  have h: "\<forall>j<2. attempt_fails ?nt (issued [] + j) ''u''"
    using f0 f1 by (simp add: issued_def less_Suc_eq numeral_2_eq_2)
  have r: "[1..<2 + 1] = [1, 2 :: nat]"
    by code_simp
  have a: "\<exists>evs. query ?nt ''u'' [] = (Inr \<lparr> status_code = 200, text' = [] \<rparr>, evs)
          \<and> requests_of evs = [GET ''u'', GET ''u'', GET ''u'']
          \<and> sleeps_of evs = [2000, 4000]"
    using query_retry_policy [OF h, of "\<lparr> status_code = 200, text' = [] \<rparr>"]
    by (simp add: issued_def r numeral_3_eq_3)
  have g: "\<forall>j<10. attempt_fails ?down (issued [] + j) ''u''"
    by (simp add: attempt_fails_def)
  have b: "\<exists>evs. query ?down ''u'' [] = (Inl RequestException, evs)
          \<and> requests_of evs = replicate 10 (GET ''u'')
          \<and> sleeps_of evs = [2000, 4000, 8000, 10000, 10000, 10000, 10000, 10000, 10000]"
    using query_retry_policy [OF g] by (simp add: attempt_error_def)
  show ?thesis
    using f0 f1 a b by blast
qed

theorem query_retry_policy_counterexample:
  "sleeps_of (snd (query (\<lambda>i rq. if i = 0 then None else Some \<lparr> status_code = 200, text' = [] \<rparr>)
                     ''u'' [])) = [2000]
   \<and> query (\<lambda>i rq. Some \<lparr> status_code = 304, text' = [] \<rparr>) ''u'' []
       = (Inr \<lparr> status_code = 304, text' = [] \<rparr>, [LogInfo ''u'', Request (GET ''u'')])"
  by (simp add: query_def retry_call.simps query_body_def send_def issued_def raise_for_status_def
        requests_of_append exponential_sleep_def)

lemma set_AList_update: "set (AList.update k v al) \<subseteq> insert (k, v) (set al)"
  by (induction al) auto

lemma floats_of_ok:
  "\<forall>x \<in> set xs. float_of ops x \<noteq> None
     \<Longrightarrow> floats_of ops xs = Inr (map (\<lambda>x. the (float_of ops x)) xs)"
  by (induction xs) (auto simp: exn_bind_def)

lemma py_min_ok: "vs \<noteq> [] \<Longrightarrow> \<exists>v. py_min lt vs = Inr v"
  by (cases vs) auto

lemma py_max_ok: "vs \<noteq> [] \<Longrightarrow> \<exists>v. py_max lt vs = Inr v"
  by (cases vs) auto

lemma foldl_smaller:
  fixes x :: "'f::linorder"
  shows "foldl (\<lambda>best item. if item < best then item else best) x xs = Min (set (x # xs))"
proof (induction xs arbitrary: x)
  case Nil
  then show ?case by simp
next
  case (Cons a xs)
  have "Min (set ((if a < x then a else x) # xs)) = Min (set (x # a # xs))"
  proof (cases "a < x")
    case True
    then have "min x (Min (insert a (set xs))) = Min (insert a (set xs))"
      by (intro min_absorb2) (simp add: Min_le_iff less_imp_le)
    then show ?thesis
      using True by simp
  next
    case False
    then have "min x (Min (insert a (set xs))) = Min (insert x (set xs))"
      by (cases "xs = []") (auto simp: min_def Min_insert2 not_less intro: antisym)
    then show ?thesis
      using False by simp
  qed
  then show ?case
    using Cons [of "if a < x then a else x"] by simp
qed

lemma foldl_greater:
  fixes x :: "'f::linorder"
  shows "foldl (\<lambda>best item. if best < item then item else best) x xs = Max (set (x # xs))"
proof (induction xs arbitrary: x)
  case Nil
  then show ?case by simp
next
  case (Cons a xs)
  have "Max (set ((if x < a then a else x) # xs)) = Max (set (x # a # xs))"
  proof (cases "x < a")
    case True
    then have "max x (Max (insert a (set xs))) = Max (insert a (set xs))"
      by (intro max_absorb2) (simp add: Max_ge_iff less_imp_le)
    then show ?thesis
      using True by simp
  next
    case False
    then have "max x (Max (insert a (set xs))) = Max (insert x (set xs))"
      by (cases "xs = []") (auto simp: max_def Max_insert2 not_less intro: antisym)
    then show ?thesis
      using False by simp
  qed
  then show ?case
    using Cons [of "if x < a then a else x"] by simp
qed

lemma py_min_Min:
  fixes xs :: "'f::linorder list"
  shows "xs \<noteq> [] \<Longrightarrow> py_min (<) xs = Inr (Min (set xs))"
  by (cases xs) (simp_all add: foldl_smaller)

lemma py_max_Max:
  fixes xs :: "'f::linorder list"
  shows "xs \<noteq> [] \<Longrightarrow> py_max (<) xs = Inr (Max (set xs))"
  by (cases xs) (simp_all add: foldl_greater)

lemma three_columns: "length row = 3 \<Longrightarrow> \<exists>a b c. row = [a, b, c]"
  by (auto simp: length_Suc_conv numeral_3_eq_3)

lemma read_rows_map:
  assumes "\<forall>row \<in> set rows. length row = 3" and "distinct (map fst data)"
  shows "\<exists>data'. read_rows codes rows data = Inr data'
           \<and> distinct (map fst data')
           \<and> map_of data' = map_of data ++ (map_of (rev (map dataset_entry rows)) |` set codes)"
  using assms
proof (induction rows arbitrary: data)
  case Nil
  then show ?case by simp
next
  case (Cons row rows)
  obtain code lat lon where row: "row = [code, lat, lon]"
    using Cons.prems(1) three_columns [of row] by auto
  let ?data = "if code \<in> set codes then AList.update code (lat, lon) data else data"
  have dist: "distinct (map fst ?data)"
    using Cons.prems(2) by (simp add: AList.distinct_update)
  have rest: "\<forall>row \<in> set rows. length row = 3"
    using Cons.prems(1) by simp
  obtain data' where d: "read_rows codes rows ?data = Inr data'" "distinct (map fst data')"
    "map_of data' = map_of ?data ++ (map_of (rev (map dataset_entry rows)) |` set codes)"
    using Cons.IH [OF rest dist] by blast
  have step: "read_rows codes (row # rows) data = Inr data'"
    using d(1) row by simp
  have e: "dataset_entry row = (code, lat, lon)"
    by (simp add: dataset_entry_def row)
  have "map_of ?data ++ (map_of (rev (map dataset_entry rows)) |` set codes)
          = map_of data ++ (map_of (rev (map dataset_entry (row # rows))) |` set codes)"
    by (rule ext)
       (auto simp: e map_add_def restrict_map_def AList.update_conv' split: option.splits)
  then show ?case
    using step d(2,3) by auto
qed

lemma bounding_box_ok:
  assumes "data \<noteq> []"
    and "\<forall>(code, lat, lon) \<in> set data. float_of ops lat \<noteq> None \<and> float_of ops lon \<noteq> None"
  shows "\<exists>box. bounding_box ops data = Inr box"
proof -
  let ?lats = "map (\<lambda>(code, lat, lon). lat) data"
  let ?lons = "map (\<lambda>(code, lat, lon). lon) data"
  have p: "\<forall>x \<in> set ?lats. float_of ops x \<noteq> None" "\<forall>x \<in> set ?lons. float_of ops x \<noteq> None"
    using assms(2) by auto
  let ?las = "map (\<lambda>x. the (float_of ops x)) ?lats"
  let ?los = "map (\<lambda>x. the (float_of ops x)) ?lons"
  have f: "floats_of ops ?lats = Inr ?las" "floats_of ops ?lons = Inr ?los"
    using p floats_of_ok by blast+
  have ne: "?las \<noteq> []" "?los \<noteq> []"
    using assms(1) by auto
  obtain a b c d where "py_min (float_lt ops) ?las = Inr a" "py_min (float_lt ops) ?los = Inr b"
    "py_max (float_lt ops) ?las = Inr c" "py_max (float_lt ops) ?los = Inr d"
    using py_min_ok [OF ne(1)] py_min_ok [OF ne(2)] py_max_ok [OF ne(1)] py_max_ok [OF ne(2)]
    by blast
  then show ?thesis
    using f by (simp add: bounding_box_def exn_bind_def)
qed

lemma bounding_box_empty:
  "bounding_box ops [] = Inl (ValueError ''min() arg is an empty sequence'')"
  by (simp add: bounding_box_def exn_bind_def)

lemma bounding_box_Min_Max:
  fixes ops :: "'f::linorder float_ops"
  assumes "data \<noteq> []"
    and "\<forall>(code, lat, lon) \<in> set data. float_of ops lat \<noteq> None \<and> float_of ops lon \<noteq> None"
    and "float_lt ops = (<)"
  shows "bounding_box ops data
           = Inr (float_sub ops (Min (lat_of ops ` set data)) (float_half ops),
                  float_sub ops (Min (lon_of ops ` set data)) (float_half ops),
                  float_add ops (Max (lat_of ops ` set data)) (float_half ops),
                  float_add ops (Max (lon_of ops ` set data)) (float_half ops))"
proof -
  let ?lats = "map (\<lambda>(code, lat, lon). lat) data"
  let ?lons = "map (\<lambda>(code, lat, lon). lon) data"
  have p: "\<forall>x \<in> set ?lats. float_of ops x \<noteq> None" "\<forall>x \<in> set ?lons. float_of ops x \<noteq> None"
    using assms(2) by auto
  let ?las = "map (\<lambda>x. the (float_of ops x)) ?lats"
  let ?los = "map (\<lambda>x. the (float_of ops x)) ?lons"
  have f: "floats_of ops ?lats = Inr ?las" "floats_of ops ?lons = Inr ?los"
    using p floats_of_ok by blast+
  have ne: "?las \<noteq> []" "?los \<noteq> []"
    using assms(1) by auto
  have "?las = map (lat_of ops) data" "?los = map (lon_of ops) data"
    by (induction data) (auto simp: lat_of_def lon_of_def)
  then have s: "set ?las = lat_of ops ` set data" "set ?los = lon_of ops ` set data"
    by (simp_all only: set_map)
  have m: "py_min (float_lt ops) ?las = Inr (Min (lat_of ops ` set data))"
    "py_min (float_lt ops) ?los = Inr (Min (lon_of ops ` set data))"
    "py_max (float_lt ops) ?las = Inr (Max (lat_of ops ` set data))"
    "py_max (float_lt ops) ?los = Inr (Max (lon_of ops ` set data))"
    unfolding assms(3) s [symmetric]
    using py_min_Min [OF ne(1)] py_min_Min [OF ne(2)] py_max_Max [OF ne(1)] py_max_Max [OF ne(2)]
    by blast+
  show ?thesis
    using f m by (simp add: bounding_box_def exn_bind_def)
qed

lemma dataset_codes:
  assumes "\<forall>row \<in> set rows. length row = 3"
  shows "fst ` set (map dataset_entry rows) = hd ` set rows"
proof -
  have "fst (dataset_entry row) = hd row" if "row \<in> set rows" for row
    using that assms three_columns [of row] by (auto simp: dataset_entry_def)
  then show ?thesis
    by (auto simp: image_iff)
qed

text \<open>
  C6, as amended. When every row of the dataset has three columns and the rows of the
  requested codes have coordinates that \<open>float\<close> accepts, the construction of the
  SkyVector adapter raises exactly when none of the requested codes, upper-cased, has a
  row in the dataset, and what it raises is the \<open>ValueError\<close> of \<open>min\<close> over an empty
  sequence. When at least one requested code has a row, the construction succeeds; the
  requested codes without a row are dropped without an error; \<open>data\<close> holds, for each
  requested code that has rows, the coordinates of the last of them; and when \<open><\<close> on
  floats is a linear order, the URL is that of the box from the least latitude and
  longitude in \<open>data\<close> minus \<open>0.5\<close> to the greatest ones plus \<open>0.5\<close>.
\<close>

theorem SkyVector_init_coordinates:
  fixes ops :: "'f::linorder float_ops"
  assumes "\<forall>row \<in> set rows. length row = 3"
    and "\<forall>row \<in> set rows. hd row \<in> set (map upper codes)
           \<longrightarrow> float_of ops (row ! 1) \<noteq> None \<and> float_of ops (row ! 2) \<noteq> None"
  shows "(set (map upper codes) \<inter> hd ` set rows = {}
           \<longrightarrow> SkyVector_init ops rows codes
                 = Inl (ValueError ''min() arg is an empty sequence''))
       \<and> (set (map upper codes) \<inter> hd ` set rows \<noteq> {}
           \<longrightarrow> (\<exists>self.
                  SkyVector_init ops rows codes = Inr self
                  \<and> sv_airport_codes self = map upper codes
                  \<and> distinct (map fst (sv_data self))
                  \<and> fst ` set (sv_data self) = set (map upper codes) \<inter> hd ` set rows
                  \<and> map_of (sv_data self)
                      = map_of (rev (map dataset_entry rows)) |` set (map upper codes)
                  \<and> (float_lt ops = (<)
                       \<longrightarrow> sv_url self
                           = SkyVector_URL
                               (float_str ops (float_sub ops (Min (lat_of ops ` set (sv_data self)))
                                                 (float_half ops)))
                               (float_str ops (float_sub ops (Min (lon_of ops ` set (sv_data self)))
                                                 (float_half ops)))
                               (float_str ops (float_add ops (Max (lat_of ops ` set (sv_data self)))
                                                 (float_half ops)))
                               (float_str ops (float_add ops (Max (lon_of ops ` set (sv_data self)))
                                                 (float_half ops))))))"
proof -
  let ?codes = "map upper codes"
  obtain data where d: "read_rows ?codes rows [] = Inr data" "distinct (map fst data)"
    "map_of data = map_of [] ++ (map_of (rev (map dataset_entry rows)) |` set ?codes)"
    using read_rows_map [OF assms(1), of "[]" ?codes] by auto
  have m: "map_of data = map_of (rev (map dataset_entry rows)) |` set ?codes"
    using d(3) by simp
  have "fst ` set data = dom (map_of data)"
    by (simp add: dom_map_of_conv_image_fst)
  also have "\<dots> = fst ` set (map dataset_entry rows) \<inter> set ?codes"
    unfolding m by (simp add: dom_map_of_conv_image_fst)
  finally have keys: "fst ` set data = set ?codes \<inter> hd ` set rows"
    using dataset_codes [OF assms(1)] by auto
  have parse: "\<forall>(code, lat, lon) \<in> set data. float_of ops lat \<noteq> None \<and> float_of ops lon \<noteq> None"
  proof (clarify)
    fix code lat lon
    assume "(code, lat, lon) \<in> set data"
    then have "map_of data code = Some (lat, lon)"
      using d(2) by simp
    then have c: "code \<in> set ?codes" and "map_of (rev (map dataset_entry rows)) code = Some (lat, lon)"
      unfolding m by (auto simp: restrict_map_def split: if_splits)
    then have "(code, lat, lon) \<in> set (map dataset_entry rows)"
      using map_of_SomeD by fastforce
    then obtain row where row: "row \<in> set rows" "dataset_entry row = (code, lat, lon)"
      by auto
    then obtain a b c' where "row = [a, b, c']"
      using assms(1) three_columns by blast
    then have "hd row = code" "row ! 1 = lat" "row ! 2 = lon"
      using row(2) by (simp_all add: dataset_entry_def)
    then show "float_of ops lat \<noteq> None \<and> float_of ops lon \<noteq> None"
      using assms(2) row(1) c by blast
  qed
  show ?thesis
  proof (intro conjI impI)
    assume "set ?codes \<inter> hd ` set rows = {}"
    then have "data = []"
      using keys by simp
    then show "SkyVector_init ops rows codes = Inl (ValueError ''min() arg is an empty sequence'')"
      using d(1) by (simp add: SkyVector_init_def find_coordinates_def exn_bind_def bounding_box_empty)
  next
    assume "set ?codes \<inter> hd ` set rows \<noteq> {}"
    then have ne: "data \<noteq> []"
      using keys by auto
    then obtain box where "bounding_box ops data = Inr box"
      using bounding_box_ok parse by blast
    then obtain lat1 lon1 lat2 lon2 where b: "bounding_box ops data = Inr (lat1, lon1, lat2, lon2)"
      by (cases box) auto
    let ?self = "\<lparr> sv_airport_codes = ?codes, sv_data = data,
                   sv_url = SkyVector_URL (float_str ops lat1) (float_str ops lon1)
                              (float_str ops lat2) (float_str ops lon2) \<rparr>"
    have init: "SkyVector_init ops rows codes = Inr ?self"
      using d(1) b by (simp add: SkyVector_init_def find_coordinates_def exn_bind_def)
    have url: "sv_url ?self
                 = SkyVector_URL
                     (float_str ops (float_sub ops (Min (lat_of ops ` set (sv_data ?self)))
                                       (float_half ops)))
                     (float_str ops (float_sub ops (Min (lon_of ops ` set (sv_data ?self)))
                                       (float_half ops)))
                     (float_str ops (float_add ops (Max (lat_of ops ` set (sv_data ?self)))
                                       (float_half ops)))
                     (float_str ops (float_add ops (Max (lon_of ops ` set (sv_data ?self)))
                                       (float_half ops)))"
      if "float_lt ops = (<)"
      using bounding_box_Min_Max [OF ne parse that] b by simp
    show "\<exists>self.
            SkyVector_init ops rows codes = Inr self
            \<and> sv_airport_codes self = map upper codes
            \<and> distinct (map fst (sv_data self))
            \<and> fst ` set (sv_data self) = set (map upper codes) \<inter> hd ` set rows
            \<and> map_of (sv_data self)
                = map_of (rev (map dataset_entry rows)) |` set (map upper codes)
            \<and> (float_lt ops = (<)
                 \<longrightarrow> sv_url self
                     = SkyVector_URL
                         (float_str ops (float_sub ops (Min (lat_of ops ` set (sv_data self)))
                                           (float_half ops)))
                         (float_str ops (float_sub ops (Min (lon_of ops ` set (sv_data self)))
                                           (float_half ops)))
                         (float_str ops (float_add ops (Max (lat_of ops ` set (sv_data self)))
                                           (float_half ops)))
                         (float_str ops (float_add ops (Max (lon_of ops ` set (sv_data self)))
                                           (float_half ops))))"
      using init d(2) keys m url by (intro exI [of _ ?self]) simp
  qed
qed

lemma example_init:
  "SkyVector_init example_floats [[''KDEN'', ''39'', ''-104'']] [''KDEN'', ''XXXX'']
     = Inr \<lparr> sv_airport_codes = [''KDEN'', ''XXXX''],
             sv_data = [(''KDEN'', ''39'', ''-104'')],
             sv_url = ''https://skyvector.com/api/dLayer?ll1=38.5,-104.5&ll2=39.5,-103.5&layers=metar'' \<rparr>"
proof -
  have u: "upper ''KDEN'' = ''KDEN''" "upper ''XXXX'' = ''XXXX''"
    by code_simp+
  show ?thesis
    by (simp add: SkyVector_init_def find_coordinates_def bounding_box_def exn_bind_def u
          example_floats_def SkyVector_URL_def)
qed

lemma example_init_two:
  "SkyVector_init example_floats
      [[''KDEN'', ''39'', ''-104''], [''KSEA'', ''n/a'', ''n/a''], [''KJFK'', ''40'', ''-73'']]
      [''kden'', ''KJFK'', ''XXXX'']
     = Inr \<lparr> sv_airport_codes = [''KDEN'', ''KJFK'', ''XXXX''],
             sv_data = [(''KDEN'', ''39'', ''-104''), (''KJFK'', ''40'', ''-73'')],
             sv_url = ''https://skyvector.com/api/dLayer?ll1=38.5,-104.5&ll2=40.5,-72.5&layers=metar'' \<rparr>"
proof -
  have u: "upper ''kden'' = ''KDEN''" "upper ''KJFK'' = ''KJFK''" "upper ''XXXX'' = ''XXXX''"
    by code_simp+
  show ?thesis
    by (simp add: SkyVector_init_def find_coordinates_def bounding_box_def exn_bind_def u
          example_floats_def SkyVector_URL_def)
qed

theorem SkyVector_init_coordinates_witness:
  "list_all (\<lambda>row. length row = 3)
      [[''KDEN'', ''39'', ''-104''], [''KSEA'', ''n/a'', ''n/a''], [''KJFK'', ''40'', ''-73'']]
   \<and> float_of example_floats ''39'' = Some 39 \<and> float_of example_floats ''-104'' = Some (- 104)
   \<and> float_of example_floats ''40'' = Some 40 \<and> float_of example_floats ''-73'' = Some (- 73)
   \<and> float_of example_floats ''n/a'' = None
   \<and> float_lt example_floats = (<)
   \<and> set (map upper [''kden'', ''KJFK'', ''XXXX''])
        \<inter> hd ` set [[''KDEN'', ''39'', ''-104''], [''KSEA'', ''n/a'', ''n/a''],
                     [''KJFK'', ''40'', ''-73'']]
       = {''KDEN'', ''KJFK''}
   \<and> (\<exists>self. SkyVector_init example_floats
                 [[''KDEN'', ''39'', ''-104''], [''KSEA'', ''n/a'', ''n/a''], [''KJFK'', ''40'', ''-73'']]
                 [''kden'', ''KJFK'', ''XXXX''] = Inr self
          \<and> sv_data self = [(''KDEN'', ''39'', ''-104''), (''KJFK'', ''40'', ''-73'')]
          \<and> Min (lat_of example_floats ` set (sv_data self)) = 39
          \<and> Min (lon_of example_floats ` set (sv_data self)) = - 104
          \<and> Max (lat_of example_floats ` set (sv_data self)) = 40
          \<and> Max (lon_of example_floats ` set (sv_data self)) = - 73
          \<and> sv_url self
              = SkyVector_URL
                  (float_str example_floats (float_sub example_floats 39 (float_half example_floats)))
                  (float_str example_floats (float_sub example_floats (- 104) (float_half example_floats)))
                  (float_str example_floats (float_add example_floats 40 (float_half example_floats)))
                  (float_str example_floats (float_add example_floats (- 73) (float_half example_floats)))
          \<and> sv_url self
              = ''https://skyvector.com/api/dLayer?ll1=38.5,-104.5&ll2=40.5,-72.5&layers=metar'')
   \<and> set (map upper [''XXXX''])
        \<inter> hd ` set [[''KDEN'', ''39'', ''-104''], [''KSEA'', ''n/a'', ''n/a''],
                     [''KJFK'', ''40'', ''-73'']] = {}
   \<and> SkyVector_init example_floats
        [[''KDEN'', ''39'', ''-104''], [''KSEA'', ''n/a'', ''n/a''], [''KJFK'', ''40'', ''-73'']]
        [''XXXX'']
       = Inl (ValueError ''min() arg is an empty sequence'')"
proof -
  let ?rows = "[[''KDEN'', ''39'', ''-104''], [''KSEA'', ''n/a'', ''n/a''], [''KJFK'', ''40'', ''-73'']]"
  let ?codes = "[''kden'', ''KJFK'', ''XXXX'']"
  have u: "upper ''kden'' = ''KDEN''" "upper ''KJFK'' = ''KJFK''" "upper ''XXXX'' = ''XXXX''"
    by code_simp+
  have p: "float_of example_floats ''39'' = Some 39" "float_of example_floats ''-104'' = Some (- 104)"
    "float_of example_floats ''40'' = Some 40" "float_of example_floats ''-73'' = Some (- 73)"
    "float_of example_floats ''n/a'' = None"
    by (simp_all add: example_floats_def)
  have lt: "float_lt example_floats = (<)"
    by (simp add: example_floats_def)
  have h1: "\<forall>row \<in> set ?rows. length row = 3"
    by simp
  have h2: "\<forall>row \<in> set ?rows. hd row \<in> set (map upper ?codes)
              \<longrightarrow> float_of example_floats (row ! 1) \<noteq> None \<and> float_of example_floats (row ! 2) \<noteq> None"
    by (simp add: u p)
  have h2x: "\<forall>row \<in> set ?rows. hd row \<in> set (map upper [''XXXX''])
              \<longrightarrow> float_of example_floats (row ! 1) \<noteq> None \<and> float_of example_floats (row ! 2) \<noteq> None"
    by (simp add: u)
  have i1: "set (map upper ?codes) \<inter> hd ` set ?rows = {''KDEN'', ''KJFK''}"
    by (auto simp: u)
  have i2: "set (map upper [''XXXX'']) \<inter> hd ` set ?rows = {}"
    by (simp add: u)
  let ?data = "[(''KDEN'', ''39'', ''-104''), (''KJFK'', ''40'', ''-73'')]"
  have mm: "Min (lat_of example_floats ` set ?data) = 39"
    "Min (lon_of example_floats ` set ?data) = - 104"
    "Max (lat_of example_floats ` set ?data) = 40"
    "Max (lon_of example_floats ` set ?data) = - 73"
    by (simp_all add: lat_of_def lon_of_def p)
  have ne: "set (map upper ?codes) \<inter> hd ` set ?rows \<noteq> {}"
    unfolding i1 by simp
  have "\<exists>self. SkyVector_init example_floats ?rows ?codes = Inr self
          \<and> sv_airport_codes self = map upper ?codes
          \<and> distinct (map fst (sv_data self))
          \<and> fst ` set (sv_data self) = set (map upper ?codes) \<inter> hd ` set ?rows
          \<and> map_of (sv_data self) = map_of (rev (map dataset_entry ?rows)) |` set (map upper ?codes)
          \<and> (float_lt example_floats = (<)
               \<longrightarrow> sv_url self
                   = SkyVector_URL
                       (float_str example_floats (float_sub example_floats
                          (Min (lat_of example_floats ` set (sv_data self))) (float_half example_floats)))
                       (float_str example_floats (float_sub example_floats
                          (Min (lon_of example_floats ` set (sv_data self))) (float_half example_floats)))
                       (float_str example_floats (float_add example_floats
                          (Max (lat_of example_floats ` set (sv_data self))) (float_half example_floats)))
                       (float_str example_floats (float_add example_floats
                          (Max (lon_of example_floats ` set (sv_data self))) (float_half example_floats))))"
    by (rule SkyVector_init_coordinates [OF h1 h2, THEN conjunct2, THEN mp, OF ne])
  then obtain self where s: "SkyVector_init example_floats ?rows ?codes = Inr self"
    and f: "float_lt example_floats = (<)
               \<longrightarrow> sv_url self
                   = SkyVector_URL
                       (float_str example_floats (float_sub example_floats
                          (Min (lat_of example_floats ` set (sv_data self))) (float_half example_floats)))
                       (float_str example_floats (float_sub example_floats
                          (Min (lon_of example_floats ` set (sv_data self))) (float_half example_floats)))
                       (float_str example_floats (float_add example_floats
                          (Max (lat_of example_floats ` set (sv_data self))) (float_half example_floats)))
                       (float_str example_floats (float_add example_floats
                          (Max (lon_of example_floats ` set (sv_data self))) (float_half example_floats)))"
    by (elim exE conjE)
  have self: "self = \<lparr> sv_airport_codes = [''KDEN'', ''KJFK'', ''XXXX''],
             sv_data = ?data,
             sv_url = ''https://skyvector.com/api/dLayer?ll1=38.5,-104.5&ll2=40.5,-72.5&layers=metar'' \<rparr>"
    using s unfolding example_init_two by simp
  have d: "sv_data self = ?data"
    and url: "sv_url self = ''https://skyvector.com/api/dLayer?ll1=38.5,-104.5&ll2=40.5,-72.5&layers=metar''"
    unfolding self by simp_all
  have m1: "Min (lat_of example_floats ` set (sv_data self)) = 39"
    and m2: "Min (lon_of example_floats ` set (sv_data self)) = - 104"
    and m3: "Max (lat_of example_floats ` set (sv_data self)) = 40"
    and m4: "Max (lon_of example_floats ` set (sv_data self)) = - 73"
    unfolding d by (rule mm)+
  have formula: "sv_url self
              = SkyVector_URL
                  (float_str example_floats (float_sub example_floats 39 (float_half example_floats)))
                  (float_str example_floats (float_sub example_floats (- 104) (float_half example_floats)))
                  (float_str example_floats (float_add example_floats 40 (float_half example_floats)))
                  (float_str example_floats (float_add example_floats (- 73) (float_half example_floats)))"
    using f [THEN mp, OF lt] unfolding m1 m2 m3 m4 .
  have a: "\<exists>self. SkyVector_init example_floats ?rows ?codes = Inr self
          \<and> sv_data self = ?data
          \<and> Min (lat_of example_floats ` set (sv_data self)) = 39
          \<and> Min (lon_of example_floats ` set (sv_data self)) = - 104
          \<and> Max (lat_of example_floats ` set (sv_data self)) = 40
          \<and> Max (lon_of example_floats ` set (sv_data self)) = - 73
          \<and> sv_url self
              = SkyVector_URL
                  (float_str example_floats (float_sub example_floats 39 (float_half example_floats)))
                  (float_str example_floats (float_sub example_floats (- 104) (float_half example_floats)))
                  (float_str example_floats (float_add example_floats 40 (float_half example_floats)))
                  (float_str example_floats (float_add example_floats (- 73) (float_half example_floats)))
          \<and> sv_url self
              = ''https://skyvector.com/api/dLayer?ll1=38.5,-104.5&ll2=40.5,-72.5&layers=metar''"
    by (intro exI [of _ self] conjI s d m1 m2 m3 m4 formula url)
  have c: "SkyVector_init example_floats ?rows [''XXXX'']
             = Inl (ValueError ''min() arg is an empty sequence'')"
    by (rule SkyVector_init_coordinates [OF h1 h2x, THEN conjunct1, THEN mp, OF i2])
  have la: "list_all (\<lambda>row. length row = 3) ?rows"
    by simp
  show ?thesis
    by (intro conjI la p lt i1 a i2 c)
qed

theorem SkyVector_init_coordinates_counterexample:
  "''XXXX'' \<in> set (map upper [''KDEN'', ''XXXX''])
   \<and> ''XXXX'' \<notin> hd ` set [[''KDEN'', ''39'', ''-104'']]
   \<and> SkyVector_init example_floats [[''KDEN'', ''39'', ''-104'']] [''KDEN'', ''XXXX'']
     = Inr \<lparr> sv_airport_codes = [''KDEN'', ''XXXX''],
             sv_data = [(''KDEN'', ''39'', ''-104'')],
             sv_url = ''https://skyvector.com/api/dLayer?ll1=38.5,-104.5&ll2=39.5,-103.5&layers=metar'' \<rparr>
   \<and> SkyVector_init example_floats [[''KDEN'', ''39'', ''-104'']] []
     = Inl (ValueError ''min() arg is an empty sequence'')"
proof -
  have u: "upper ''KDEN'' = ''KDEN''" "upper ''XXXX'' = ''XXXX''"
    by code_simp+
  have e: "SkyVector_init example_floats [[''KDEN'', ''39'', ''-104'']] []
             = Inl (ValueError ''min() arg is an empty sequence'')"
    by (simp add: SkyVector_init_def find_coordinates_def bounding_box_def exn_bind_def)
  show ?thesis
    using example_init e by (simp add: u)
qed

lemma KO61_released_after_newPage:
  assumes "launch b = None" and "newPage b = None"
  shows "\<exists>tr. snd (KO61_get_metar_info b) = tr @ [BClose]"
  using assms
  by (auto simp: KO61_get_metar_info_def Let_def split: prod.splits option.splits)

lemma KO61_try_failure_is_absent:
  assumes "launch b = None" and "newPage b = None" and "close b = None"
    and "fst (KO61_try b) = Inl (Error msg)"
  shows "fst (KO61_get_metar_info b) = Inr None"
  using assms
  by (auto simp: KO61_get_metar_info_def Let_def split: prod.splits option.splits)

lemma KO61_newPage_raises:
  assumes "launch b = None" and "newPage b = Some e"
  shows "KO61_get_metar_info b = (Inl e, [BLaunch, BNewPage])
         \<and> leaked b (snd (KO61_get_metar_info b))"
  using assms by (simp add: KO61_get_metar_info_def leaked_def)

text \<open>
  C8. The claim fails on the code: when the browser is launched and
  \<open>browser.newPage()\<close> raises, \<open>get_metar_info\<close> raises that exception and never calls
  \<open>browser.close()\<close>, because \<open>newPage\<close> is called before the \<open>try\<close> statement whose
  \<open>finally\<close> clause closes the browser. The theorem runs the code on that input.
\<close>

theorem KO61_newPage_failure_leaks_browser:
  "KO61_get_metar_info
      \<lparr> launch = None, newPage = Some (Error ''Target closed''), goto = None, sleep = None,
        waitForSelector = None, evaluate = Inr (PStr ''KO61 221856Z''), close = None \<rparr>
     = (Inl (Error ''Target closed''), [BLaunch, BNewPage])
   \<and> leaked
        \<lparr> launch = None, newPage = Some (Error ''Target closed''), goto = None, sleep = None,
          waitForSelector = None, evaluate = Inr (PStr ''KO61 221856Z''), close = None \<rparr>
        [BLaunch, BNewPage]"
  by (simp add: KO61_get_metar_info_def leaked_def)

lemma KO61_waitForSelector_fails:
  "KO61_get_metar_info
      \<lparr> launch = None, newPage = None, goto = None, sleep = None,
        waitForSelector = Some (Error ''Timeout''), evaluate = Inr (PStr ''KO61 221856Z''),
        close = None \<rparr>
     = (Inr None,
        [BLaunch, BNewPage, BGoto KO61_URL, BSleep 1, BWaitForSelector ''#OfficialObs'',
         BPrint, BClose])"
  by (simp add: KO61_get_metar_info_def KO61_try_def)

lemma attempt_fails_failed: "attempt_fails nt i url = failed (nt i (GET url))"
  by (simp add: attempt_fails_def failed_def)

lemma attempt_error_failure: "attempt_error nt i url = failure (nt i (GET url))"
  by (simp add: attempt_error_def failure_def)

lemma attempts_append:
  "attempts nt n (a @ b) = attempts nt n a @ attempts nt (n + issued a) b"
  by (induction nt n a rule: attempts.induct) (simp_all add: issued_def)

lemma attempts_retried_attempts:
  "attempts nt n (retried_attempts url a K) = map (\<lambda>j. (GET url, nt j (GET url))) [n..<n + K]"
proof (induction K arbitrary: n a)
  case 0
  then show ?case by (simp add: retried_attempts_0)
next
  case (Suc K)
  show ?case
    unfolding upt_shift retried_attempts_Suc attempts_append
    using Suc [of "Suc n" "Suc a"] by (simp add: retried_attempt_def issued_def)
qed

lemma issued_retried_attempts: "issued (retried_attempts url a K) = K"
  by (simp add: issued_def requests_of_retried)

lemma query_cases:
  obtains (ok) K r where "K < 10" "\<forall>j<K. attempt_fails nt (issued w + j) url"
      "nt (issued w + K) (GET url) = Some r" "\<not> (400 \<le> status_code r \<and> status_code r < 600)"
      "query nt url w = (Inr r, w @ retried_attempts url 1 K @ [LogInfo url, Request (GET url)])"
  | (exhausted) "\<forall>j<10. attempt_fails nt (issued w + j) url"
      "query nt url w
         = (Inl (attempt_error nt (issued w + 9) url),
            w @ retried_attempts url 1 9
              @ [LogInfo url, Request (GET url), LogException ''Metar query failure.''])"
proof (cases "\<forall>j<10. attempt_fails nt (issued w + j) url")
  case True
  then show ?thesis
    using exhausted query_all_fail by blast
next
  case False
  define K where "K = (LEAST j. \<not> attempt_fails nt (issued w + j) url)"
  from False obtain j0 where j0: "j0 < 10" "\<not> attempt_fails nt (issued w + j0) url"
    by blast
  have nf: "\<not> attempt_fails nt (issued w + K) url"
    unfolding K_def using j0(2) by (rule LeastI)
  have "K \<le> j0"
    unfolding K_def using j0(2) by (rule Least_le)
  then have lt: "K < 10"
    using j0(1) by simp
  have before: "\<forall>j<K. attempt_fails nt (issued w + j) url"
    unfolding K_def using not_less_Least by blast
  obtain r where r: "nt (issued w + K) (GET url) = Some r"
    "\<not> (400 \<le> status_code r \<and> status_code r < 600)"
    using nf by (auto simp: attempt_fails_def split: option.splits)
  show ?thesis
    using ok [OF lt before r] query_fails_then_ok [OF before r lt] by blast
qed

lemma block_nth:
  "i < k \<Longrightarrow> map (\<lambda>j. (GET url, nt j (GET url))) [n..<n + k] ! i = (GET url, nt (n + i) (GET url))"
  by simp


lemma query_block:
  assumes "query nt url w = (res, w')"
  obtains evs k where "w' = w @ evs"
    and "attempts nt (issued w) evs
           = map (\<lambda>j. (GET url, nt j (GET url))) [issued w..<issued w + k]"
    and "0 < k" and "k \<le> 10"
    and "\<forall>j<k - 1. failed (nt (issued w + j) (GET url))"
    and "\<And>r. res = Inr r \<Longrightarrow> nt (issued w + k - 1) (GET url) = Some r \<and> \<not> failed (Some r)"
    and "\<And>e. res = Inl e \<Longrightarrow> k = 10 \<and> failed (nt (issued w + 9) (GET url))
                                 \<and> e = failure (nt (issued w + 9) (GET url))"
proof (cases rule: query_cases [of nt w url])
  case (ok K r)
  let ?evs = "retried_attempts url 1 K @ [LogInfo url, Request (GET url)]"
  have w: "w' = w @ ?evs" and res: "res = Inr r"
    using ok(5) assms by simp_all
  have a: "attempts nt (issued w) ?evs
             = map (\<lambda>j. (GET url, nt j (GET url))) [issued w..<issued w + Suc K]"
    by (simp add: attempts_append attempts_retried_attempts issued_retried_attempts)
  have f: "\<forall>j<Suc K - 1. failed (nt (issued w + j) (GET url))"
    using ok(2) by (simp add: attempt_fails_failed)
  have r: "nt (issued w + Suc K - 1) (GET url) = Some r \<and> \<not> failed (Some r)"
    using ok(3,4) by (simp add: failed_def)
  show ?thesis
    using that [OF w a _ _ f] ok(1) r res by simp
next
  case exhausted
  let ?f = "\<lambda>j. (GET url, nt j (GET url))"
  let ?evs = "retried_attempts url 1 9
                @ [LogInfo url, Request (GET url), LogException ''Metar query failure.'']"
  have w: "w' = w @ ?evs" and res: "res = Inl (attempt_error nt (issued w + 9) url)"
    using exhausted(2) assms by simp_all
  have s: "issued w + 10 = Suc (issued w + 9)"
    by simp
  have u: "[issued w..<issued w + 10] = [issued w..<issued w + 9] @ [issued w + 9]"
    unfolding s by (rule upt_Suc_append) simp
  have "attempts nt (issued w) ?evs = map ?f [issued w..<issued w + 9] @ [?f (issued w + 9)]"
    by (simp add: attempts_append attempts_retried_attempts issued_retried_attempts)
  then have a: "attempts nt (issued w) ?evs = map ?f [issued w..<issued w + 10]"
    unfolding u by simp
  have f: "\<forall>j<10 - 1. failed (nt (issued w + j) (GET url))"
    using exhausted(1) by (simp add: attempt_fails_failed)
  have l: "failed (nt (issued w + 9) (GET url))"
    using exhausted(1) by (simp add: attempt_fails_failed)
  have p: "(0::nat) < 10" "(10::nat) \<le> 10"
    by simp_all
  have r: "res = Inr r \<Longrightarrow> nt (issued w + 10 - 1) (GET url) = Some r \<and> \<not> failed (Some r)" for r
    using res by simp
  have e: "res = Inl e \<Longrightarrow> (10::nat) = 10 \<and> failed (nt (issued w + 9) (GET url))
             \<and> e = failure (nt (issued w + 9) (GET url))" for e
    using res l by (simp add: attempt_error_failure)
  show ?thesis
    by (rule that [OF w a p f r e])
qed

lemma requests_of_attempts: "map fst (attempts nt n evs) = requests_of evs"
  by (induction nt n evs rule: attempts.induct) simp_all

lemma successes_append:
  "successes nt n (a @ b) = successes nt n a \<union> successes nt (n + issued a) b"
  by (auto simp: successes_def attempts_append)

lemma successes_quiet: "requests_of evs = [] \<Longrightarrow> successes nt n evs = {}"
proof -
  assume "requests_of evs = []"
  then have "map fst (attempts nt n evs) = []"
    by (simp add: requests_of_attempts)
  then show ?thesis
    by (simp add: successes_def)
qed

lemma query_summary:
  assumes "query nt url w = (res, w')"
  obtains evs where "w' = w @ evs"
    and "requests_of evs \<noteq> []" and "set (requests_of evs) = {GET url}"
    and "successes nt (issued w) evs = (case res of Inr r \<Rightarrow> {r} | Inl e \<Rightarrow> {})"
proof (rule query_block [OF assms])
  let ?f = "\<lambda>j. (GET url, nt j (GET url))"
  let ?n = "issued w"
  fix evs k
  assume w: "w' = w @ evs"
    and a: "attempts nt ?n evs = map ?f [?n..<?n + k]"
    and k: "0 < k" "k \<le> 10"
    and before: "\<forall>j<k - 1. failed (nt (?n + j) (GET url))"
    and ok: "\<And>r. res = Inr r \<Longrightarrow> nt (?n + k - 1) (GET url) = Some r \<and> \<not> failed (Some r)"
    and ex: "\<And>e. res = Inl e \<Longrightarrow> k = 10 \<and> failed (nt (?n + 9) (GET url))
                                 \<and> e = failure (nt (?n + 9) (GET url))"
  have "requests_of evs = map fst (map ?f [?n..<?n + k])"
    unfolding a [symmetric] by (rule requests_of_attempts [symmetric])
  then have rq: "requests_of evs = map (\<lambda>j. GET url) [?n..<?n + k]"
    by (simp add: comp_def)
  have ne: "requests_of evs \<noteq> []"
    using rq k(1) by simp
  have "issued w \<in> {?n..<?n + k}"
    using k(1) by simp
  then have "{?n..<?n + k} \<noteq> {}"
    by blast
  then have same: "set (requests_of evs) = {GET url}"
    unfolding rq by (simp add: image_constant_conv)
  have mem: "r \<in> successes nt ?n evs \<longleftrightarrow> (\<exists>i<k. nt (?n + i) (GET url) = Some r \<and> \<not> failed (Some r))"
    for r
  proof
    assume "r \<in> successes nt ?n evs"
    then obtain j where "?n \<le> j" "j < ?n + k" "nt j (GET url) = Some r" "\<not> failed (Some r)"
      unfolding successes_def a by auto
    then have "j - ?n < k \<and> nt (?n + (j - ?n)) (GET url) = Some r \<and> \<not> failed (Some r)"
      by simp
    then show "\<exists>i<k. nt (?n + i) (GET url) = Some r \<and> \<not> failed (Some r)"
      by blast
  next
    assume "\<exists>i<k. nt (?n + i) (GET url) = Some r \<and> \<not> failed (Some r)"
    then obtain i where i: "i < k" "nt (?n + i) (GET url) = Some r" "\<not> failed (Some r)"
      by blast
    then have "(GET url, Some r) \<in> set (map ?f [?n..<?n + k])"
      by (auto simp: image_iff intro!: bexI [of _ "?n + i"])
    then show "r \<in> successes nt ?n evs"
      unfolding successes_def a using i(3) by blast
  qed
  have last_only: "i = k - 1"
    if "i < k" "nt (?n + i) (GET url) = Some r" "\<not> failed (Some r)" for i r
  proof (rule ccontr)
    assume "i \<noteq> k - 1"
    then have "i < k - 1"
      using that(1) by simp
    then have "failed (nt (?n + i) (GET url))"
      using before by blast
    then show False
      using that(2,3) by simp
  qed
  have s: "successes nt ?n evs = (case res of Inr r \<Rightarrow> {r} | Inl e \<Rightarrow> {})"
  proof (cases res)
    case (Inr r)
    have at: "nt (?n + (k - 1)) (GET url) = Some r" and good: "\<not> failed (Some r)"
      using ok [OF Inr] k(1) by simp_all
    have "r' \<in> successes nt ?n evs \<longleftrightarrow> r' = r" for r'
    proof
      assume "r' \<in> successes nt ?n evs"
      then obtain i where i: "i < k" "nt (?n + i) (GET url) = Some r'" "\<not> failed (Some r')"
        using mem by blast
      then have "i = k - 1"
        by (rule last_only)
      then show "r' = r"
        using i(2) at by simp
    next
      assume "r' = r"
      moreover have "k - 1 < k"
        using k(1) by simp
      ultimately show "r' \<in> successes nt ?n evs"
        using mem at good by blast
    qed
    then show ?thesis
      using Inr by auto
  next
    case (Inl e)
    then have k10: "k = 10" and bad: "failed (nt (?n + 9) (GET url))"
      using ex by simp_all
    have "r \<notin> successes nt ?n evs" for r
    proof
      assume "r \<in> successes nt ?n evs"
      then obtain i where i: "i < k" "nt (?n + i) (GET url) = Some r" "\<not> failed (Some r)"
        using mem by blast
      then have "i = k - 1"
        by (rule last_only)
      then have "i = 9"
        using k10 by simp
      then show False
        using bad i(2,3) by simp
    qed
    then show ?thesis
      using Inl by auto
  qed
  show thesis
    by (rule that [OF w ne same s])
qed

lemma NOAA_loop_step:
  assumes "NOAA_loop nt px sub (chunk # rest) metars w = (res, w')"
  obtains (unavailable) e evs where "res = Inl e" "w' = w @ evs"
      "requests_of evs \<noteq> []" "set (requests_of evs) = {GET (NOAA_URL sub (join '','' chunk))}"
      "successes nt (issued w) evs = {}"
  | (unparsable) r e evs where "res = Inl e" "w' = w @ evs"
      "requests_of evs \<noteq> []" "set (requests_of evs) = {GET (NOAA_URL sub (join '','' chunk))}"
      "successes nt (issued w) evs = {r}" "NOAA_entries px (text' r) = Inl e"
  | (unstorable) r ms e evs where "res = Inl e" "w' = w @ evs"
      "requests_of evs \<noteq> []" "set (requests_of evs) = {GET (NOAA_URL sub (join '','' chunk))}"
      "successes nt (issued w) evs = {r}" "NOAA_entries px (text' r) = Inr ms"
      "NOAA_store metars ms = Inl e"
  | (continue) r ms metars1 evs where
      "NOAA_loop nt px sub rest metars1 (w @ evs) = (res, w')"
      "requests_of evs \<noteq> []" "set (requests_of evs) = {GET (NOAA_URL sub (join '','' chunk))}"
      "successes nt (issued w) evs = {r}" "NOAA_entries px (text' r) = Inr ms"
      "NOAA_store metars ms = Inr metars1"
proof -
  let ?url = "NOAA_URL sub (join '','' chunk)"
  obtain q w1 where q: "query nt ?url w = (q, w1)"
    by (cases "query nt ?url w")
  from q obtain evs where e: "w1 = w @ evs" "requests_of evs \<noteq> []"
    "set (requests_of evs) = {GET ?url}"
    "successes nt (issued w) evs = (case q of Inr r \<Rightarrow> {r} | Inl e \<Rightarrow> {})"
    by (rule query_summary)
  show thesis
  proof (cases q)
    case (Inl x)
    then have "res = Inl x" "w' = w @ evs"
      using assms q e(1) by simp_all
    then show thesis
      using unavailable e(2,3,4) Inl by simp
  next
    case (Inr r)
    then have s: "successes nt (issued w) evs = {r}"
      using e(4) by simp
    show thesis
    proof (cases "NOAA_entries px (text' r)")
      case (Inl x)
      let ?evs = "evs @ [LogException ''Metar response is invalid.'', Sleep 1000]"
      have "res = Inl x" "w' = w @ ?evs"
        using assms q e(1) Inr Inl by simp_all
      moreover have "requests_of ?evs = requests_of evs"
        by (simp add: requests_of_append)
      moreover have "successes nt (issued w) ?evs = {r}"
        using s by (simp add: successes_append successes_quiet)
      ultimately show thesis
        using unparsable [of x ?evs r] e(2,3) Inl by simp
    next
      case entries: (Inr ms)
      let ?evs = "evs @ [Sleep 1000]"
      have rq: "requests_of ?evs = requests_of evs"
        by (simp add: requests_of_append)
      have s': "successes nt (issued w) ?evs = {r}"
        using s by (simp add: successes_append successes_quiet)
      show thesis
      proof (cases "NOAA_store metars ms")
        case (Inl x)
        have "res = Inl x" "w' = w @ ?evs"
          using assms q e(1) Inr entries Inl by simp_all
        then show thesis
          using unstorable [of x ?evs r ms] rq s' e(2,3) entries Inl by simp
      next
        case stored: (Inr metars1)
        have "NOAA_loop nt px sub rest metars1 (w @ ?evs) = (res, w')"
          using assms q e(1) Inr entries stored by simp
        then show thesis
          using continue [of metars1 ?evs r ms] rq s' e(2,3) entries stored by simp
      qed
    qed
  qed
qed

lemma NOAA_store_dom:
  "NOAA_store metars ms = Inr metars' \<Longrightarrow> dom metars' = dom metars \<union> station_keys ms"
proof (induction metars ms rule: NOAA_store.induct)
  case (1 metars)
  then show ?case by (simp add: station_keys_def)
next
  case (2 metars m ms)
  obtain k where k: "exn_bind (py_getitem m ''station_id'') py_upper = Inr k"
    using 2(2) by (cases "exn_bind (py_getitem m ''station_id'') py_upper") auto
  have "NOAA_store (metars(k \<mapsto> m)) ms = Inr metars'"
    using 2(2) k by simp
  then have "dom metars' = dom (metars(k \<mapsto> m)) \<union> station_keys ms"
    by (rule 2(1) [OF k])
  moreover have "station_keys (m # ms) = insert k (station_keys ms)"
    using k by (auto simp: station_keys_def)
  ultimately show ?case
    by auto
qed

lemma parsed_keys_empty: "parsed_keys px {} = {}"
  by (simp add: parsed_keys_def)

lemma parsed_keys_insert:
  "NOAA_entries px (text' r) = Inr ms
     \<Longrightarrow> parsed_keys px ({r} \<union> rs) = station_keys ms \<union> parsed_keys px rs"
  by (auto simp: parsed_keys_def)

lemma NOAA_loop_requests:
  assumes "NOAA_loop nt px sub cs metars w = (res, w')"
  shows "\<exists>evs. w' = w @ evs
           \<and> set (requests_of evs) \<subseteq> NOAA_request sub ` set cs
           \<and> (cs \<noteq> [] \<longrightarrow> requests_of evs \<noteq> []
                          \<and> hd (requests_of evs) = NOAA_request sub (hd cs))"
  using assms
proof (induction cs arbitrary: metars w)
  case Nil
  then show ?case by simp
next
  case (Cons chunk rest)
  have first: "hd (requests_of evs) = NOAA_request sub chunk"
    if "requests_of evs \<noteq> []" "set (requests_of evs) = {GET (NOAA_URL sub (join '','' chunk))}"
    for evs
  proof -
    have "hd (requests_of evs) \<in> set (requests_of evs)"
      using that(1) by simp
    then show ?thesis
      using that(2) by (simp add: NOAA_request_def)
  qed
  have stop: ?case
    if "w' = w @ evs" "requests_of evs \<noteq> []"
      "set (requests_of evs) = {GET (NOAA_URL sub (join '','' chunk))}" for evs
    using that first [OF that(2,3)] by (intro exI [of _ evs]) (simp add: NOAA_request_def)
  from Cons.prems show ?case
  proof (cases rule: NOAA_loop_step)
    case (unavailable e evs)
    then show ?thesis by (intro stop)
  next
    case (unparsable r e evs)
    then show ?thesis by (intro stop)
  next
    case (unstorable r ms e evs)
    then show ?thesis by (intro stop)
  next
    case (continue r ms metars1 evs)
    obtain evs2 where 2: "w' = (w @ evs) @ evs2"
      "set (requests_of evs2) \<subseteq> NOAA_request sub ` set rest"
      using Cons.IH [OF continue(1)] by blast
    let ?evs = "evs @ evs2"
    have "w' = w @ ?evs"
      using 2(1) by simp
    moreover have "set (requests_of ?evs) \<subseteq> NOAA_request sub ` set (chunk # rest)"
      using 2(2) continue(3) by (auto simp: requests_of_append NOAA_request_def)
    moreover have "requests_of ?evs \<noteq> []" "hd (requests_of ?evs) = NOAA_request sub chunk"
      using continue(2) first [OF continue(2,3)] by (simp_all add: requests_of_append)
    ultimately show ?thesis
      by (intro exI [of _ ?evs]) simp
  qed
qed

lemma NOAA_loop_parse:
  assumes "NOAA_loop nt px sub cs metars w = (res, w')"
  shows "\<exists>evs. w' = w @ evs
           \<and> (\<forall>r e. r \<in> successes nt (issued w) evs \<and> NOAA_entries px (text' r) = Inl e
                      \<longrightarrow> res = Inl e)
           \<and> (\<forall>metars'. res = Inr metars'
                  \<longrightarrow> dom metars' = dom metars \<union> parsed_keys px (successes nt (issued w) evs))"
  using assms
proof (induction cs arbitrary: metars w)
  case Nil
  then have "res = Inr metars" "w' = w"
    by simp_all
  then show ?case
    by (intro exI [of _ "[]"]) (simp add: successes_quiet parsed_keys_empty)
next
  case (Cons chunk rest)
  from Cons.prems show ?case
  proof (cases rule: NOAA_loop_step)
    case (unavailable e evs)
    then show ?thesis
      by (intro exI [of _ evs]) simp
  next
    case (unparsable r e evs)
    then show ?thesis
      by (intro exI [of _ evs]) simp
  next
    case (unstorable r ms e evs)
    then show ?thesis
      by (intro exI [of _ evs]) simp
  next
    case (continue r ms metars1 evs)
    obtain evs2 where 2: "w' = (w @ evs) @ evs2"
      "\<forall>r e. r \<in> successes nt (issued (w @ evs)) evs2 \<and> NOAA_entries px (text' r) = Inl e
               \<longrightarrow> res = Inl e"
      "\<forall>metars'. res = Inr metars'
         \<longrightarrow> dom metars' = dom metars1 \<union> parsed_keys px (successes nt (issued (w @ evs)) evs2)"
      using Cons.IH [OF continue(1)] by blast
    let ?evs = "evs @ evs2"
    have s: "successes nt (issued w) ?evs = {r} \<union> successes nt (issued (w @ evs)) evs2"
      using continue(4) by (simp add: successes_append issued_append)
    have a: "w' = w @ ?evs"
      using 2(1) by simp
    have b: "res = Inl e" if "r' \<in> successes nt (issued w) ?evs" "NOAA_entries px (text' r') = Inl e"
      for r' e
    proof (cases "r' = r")
      case True
      then show ?thesis using that(2) continue(5) by simp
    next
      case False
      then have "r' \<in> successes nt (issued (w @ evs)) evs2"
        using that(1) s by simp
      then show ?thesis using 2(2) that(2) by blast
    qed
    have c: "dom metars' = dom metars \<union> parsed_keys px (successes nt (issued w) ?evs)"
      if "res = Inr metars'" for metars'
    proof -
      have "dom metars' = dom metars1 \<union> parsed_keys px (successes nt (issued (w @ evs)) evs2)"
        using 2(3) that by blast
      moreover have "dom metars1 = dom metars \<union> station_keys ms"
        using continue(6) by (rule NOAA_store_dom)
      ultimately show ?thesis
        unfolding s parsed_keys_insert [OF continue(5)] by blast
    qed
    show ?thesis
      using a b c by (intro exI [of _ ?evs]) blast
  qed
qed


lemma chunks_one: "chunks [x] 250 = Inr [[x]]"
  by (simp add: chunks_def py_range.simps py_slice_def)


lemma NOAA_loop_second_chunk_unparsable:
  "NOAA_loop (\<lambda>i rq. Some \<lparr> status_code = 200, text' = (if i = 0 then ''ok'' else ''<html>'') \<rparr>)
      (\<lambda>s. if s = ''ok''
            then Inr (PDict [(''response'', PDict [(''data'', PDict [(''METAR'',
                   PDict [(''station_id'', PStr ''KDEN''), (''raw_text'', PStr ''KDEN 221856Z'')])])])])
            else Inl ExpatError)
      ''www'' [[''KDEN''], [''KJFK'']] Map.empty []
     = (Inl ExpatError,
        [LogInfo (NOAA_URL ''www'' ''KDEN''), Request (GET (NOAA_URL ''www'' ''KDEN'')), Sleep 1000,
         LogInfo (NOAA_URL ''www'' ''KJFK''), Request (GET (NOAA_URL ''www'' ''KJFK'')),
         LogException ''Metar response is invalid.'', Sleep 1000])"
proof -
  let ?nt = "\<lambda>(i::nat) (rq::request).
               Some \<lparr> status_code = 200, text' = (if i = 0 then ''ok'' else ''<html>'') \<rparr>"
  have q0: "query ?nt url [] = (Inr \<lparr> status_code = 200, text' = ''ok'' \<rparr>,
              [] @ [LogInfo url, Request (GET url)])" for url
    by (rule query_first_ok) (simp_all add: raise_for_status_def issued_def)
  have q1: "query ?nt url [LogInfo u, Request (GET u), Sleep 1000]
              = (Inr \<lparr> status_code = 200, text' = ''<html>'' \<rparr>,
                 [LogInfo u, Request (GET u), Sleep 1000] @ [LogInfo url, Request (GET url)])"
    for url u
    by (rule query_first_ok) (simp_all add: raise_for_status_def issued_def)
  have u: "upper ''KDEN'' = ''KDEN''"
    by code_simp
  show ?thesis
    by (simp add: q0 q1 NOAA_entries_def exn_bind_def u)
qed

lemma scrape_store_dom: "dom (scrape_store metars ms) = dom metars \<union> upper ` fst ` set ms"
proof (induction metars ms rule: scrape_store.induct)
  case (1 metars)
  then show ?case by simp
next
  case (2 metars code metar matches)
  have "dom (scrape_store metars ((code, metar) # matches))
          = dom (metars(upper code \<mapsto> PDict [(''raw_text'', PStr metar)]))
              \<union> upper ` fst ` set matches"
    using 2 by (simp del: fun_upd_apply)
  also have "\<dots> = dom metars \<union> upper ` fst ` set ((code, metar) # matches)"
    by (simp del: fun_upd_apply)
  finally show ?case .
qed

lemma BOM_keys:
  assumes "BOM_get_metar_info nt self w = (Inr metars, w')"
  shows "\<exists>r. nt (issued w) (POST BOM_URL (BOM_payload self)) = Some r
           \<and> dom metars = upper ` fst ` set (finditer BOM_terminators (text' r))"
proof (cases "nt (issued w) (POST BOM_URL (BOM_payload self))")
  case None
  then show ?thesis
    using assms by (simp add: BOM_get_metar_info_def send_def)
next
  case (Some r)
  then have "metars = scrape_store Map.empty (finditer BOM_terminators (text' r))"
    using assms by (simp add: BOM_get_metar_info_def send_def)
  then show ?thesis
    using Some by (simp add: scrape_store_dom)
qed

lemma IFIS_keys:
  assumes "IFIS_get_metar_info nt self w = (Inr metars, w')"
  shows "\<exists>r. nt (Suc (issued w)) (POST IFIS_URL (data_payload self)) = Some r
           \<and> dom metars = upper ` fst ` set (finditer IFIS_terminators (text' r))"
proof (cases "nt (issued w) (POST IFIS_LOGIN_URL (login_payload self))")
  case None
  then show ?thesis
    using assms by (simp add: IFIS_get_metar_info_def send_def issued_def requests_of_append)
next
  case login: (Some l)
  show ?thesis
  proof (cases "nt (Suc (issued w)) (POST IFIS_URL (data_payload self))")
    case None
    then show ?thesis
      using assms login
      by (simp add: IFIS_get_metar_info_def send_def issued_def requests_of_append)
  next
    case (Some r)
    then have "metars = scrape_store Map.empty (finditer IFIS_terminators (text' r))"
      using assms login
      by (simp add: IFIS_get_metar_info_def send_def issued_def requests_of_append)
    then show ?thesis
      using Some by (simp add: scrape_store_dom)
  qed
qed

lemma NOAA_keys:
  assumes "NOAA_get_metar_info nt parsexml self w = (Inr metars, w')"
  shows "\<exists>evs. w' = w @ evs
           \<and> dom metars = parsed_keys parsexml (successes nt (issued w) evs)"
proof -
  obtain cs where "chunks (airport_codes self) 250 = Inr cs"
    by (simp add: chunks_def)
  then have "NOAA_loop nt parsexml (subdomain self) cs Map.empty w = (Inr metars, w')"
    using assms by (simp add: NOAA_get_metar_info_def)
  then obtain evs where "w' = w @ evs"
    "\<forall>metars'. (Inr metars :: exn + (string \<rightharpoonup> pyval)) = Inr metars'
       \<longrightarrow> dom metars' = dom (Map.empty :: string \<rightharpoonup> pyval)
                            \<union> parsed_keys parsexml (successes nt (issued w) evs)"
    using NOAA_loop_parse by blast
  then show ?thesis
    by (intro exI [of _ evs]) simp
qed

text \<open>
  C1, as amended. A successful retrieval of the SkyVector adapter returns only keys
  that are upper-cased members of the code set the adapter was constructed with: the
  stations that the bounding box brings in besides are filtered out. The other adapters
  do not compare the response with the requested codes: the keys of a NOAA (or
  backup) result are exactly the upper-cased station ids of the entries of the
  responses that were fetched, and the keys of a BOM or IFIS result are exactly the
  upper-cased codes that the pattern matches in the page that was returned. The KO61
  adapter is given no codes and returns the one key \<open>KO61\<close>.
\<close>

theorem adapter_keys:
  "(SkyVector_init ops rows codes = Inr sv
      \<and> SkyVector_get_metar_info nt json sv w = (Inr metars, w')
      \<longrightarrow> dom metars \<subseteq> set (map upper codes))
   \<and> (NOAA_get_metar_info nt parsexml noaa w = (Inr metars, w')
      \<longrightarrow> (\<exists>evs. w' = w @ evs
              \<and> dom metars = parsed_keys parsexml (successes nt (issued w) evs)))
   \<and> (BOM_get_metar_info nt bom w = (Inr metars, w')
      \<longrightarrow> (\<exists>r. nt (issued w) (POST BOM_URL (BOM_payload bom)) = Some r
              \<and> dom metars = upper ` fst ` set (finditer BOM_terminators (text' r))))
   \<and> (IFIS_get_metar_info nt ifis w = (Inr metars, w')
      \<longrightarrow> (\<exists>r. nt (Suc (issued w)) (POST IFIS_URL (data_payload ifis)) = Some r
              \<and> dom metars = upper ` fst ` set (finditer IFIS_terminators (text' r))))
   \<and> (KO61_get_metar_info b = (Inr (Some ko), tr) \<longrightarrow> dom ko = {''KO61''})"
  using SkyVector_keys_in_scope NOAA_keys BOM_keys IFIS_keys KO61_keys
  by (intro conjI impI) blast+

theorem adapter_keys_witness:
  "(\<exists>self metars w'.
      SkyVector_init
         \<lparr> float_of = (\<lambda>s. if s = ''39'' then Some (39 :: int) else None),
           float_lt = (<), float_add = (+), float_sub = (-), float_half = 1,
           float_str = (\<lambda>i. ''0'') \<rparr>
         [[''KDEN'', ''39'', ''39'']] [''kden''] = Inr self
      \<and> SkyVector_get_metar_info
           (\<lambda>i rq. Some \<lparr> status_code = 200, text' = [] \<rparr>)
           (\<lambda>s. Inr (PDict [(''weather'', PList
              [PDict [(''s'', PStr ''KDEN''), (''m'', PStr ''KDEN 221856Z'')],
               PDict [(''s'', PStr ''KBJC''), (''m'', PStr ''KBJC 221853Z'')]])]))
           self [] = (Inr metars, w')
      \<and> metars ''KDEN'' = Some (PDict [(''raw_text'', PStr ''KDEN 221856Z'')])
      \<and> metars ''KBJC'' = None
      \<and> dom metars \<subseteq> set (map upper [''kden'']))
   \<and> (\<exists>metars evs.
        NOAA_get_metar_info
           (\<lambda>i rq. Some \<lparr> status_code = 200, text' = ''ok'' \<rparr>)
           (\<lambda>s. Inr (PDict [(''response'', PDict [(''data'', PDict [(''METAR'',
                   PDict [(''station_id'', PStr ''kjfk''), (''raw_text'', PStr ''KJFK 221851Z'')])])])]))
           (NOAA_init [''KDEN''] ''www'') [] = (Inr metars, [] @ evs)
        \<and> dom metars = {''KJFK''}
        \<and> dom metars
            = parsed_keys
                (\<lambda>s. Inr (PDict [(''response'', PDict [(''data'', PDict [(''METAR'',
                   PDict [(''station_id'', PStr ''kjfk''), (''raw_text'', PStr ''KJFK 221851Z'')])])])]))
                (successes (\<lambda>i rq. Some \<lparr> status_code = 200, text' = ''ok'' \<rparr>) (issued []) evs))
   \<and> (\<exists>metars w'.
        BOM_get_metar_info
           (\<lambda>i rq. Some \<lparr> status_code = 200, text' = ''METAR YMML 221856Z <br />'' \<rparr>)
           (BOM_init [''YSSY'']) [] = (Inr metars, w')
        \<and> dom metars = {''YMML''}
        \<and> dom metars = upper ` fst ` set (finditer BOM_terminators ''METAR YMML 221856Z <br />''))
   \<and> (\<exists>metars w'.
        IFIS_get_metar_info
           (\<lambda>i rq. Some \<lparr> status_code = 200, text' = ''SPECI nzaa 221900Z=</span>'' \<rparr>)
           \<lparr> ifis_airport_codes = ''NZCH'', username = PStr ''u'', password = PStr ''p'',
             login_payload = [(''UserName'', PStr ''u''), (''Password'', PStr ''p'')],
             data_payload = [(''METAR'', PInt 1), (''MetLocations'', PStr ''NZCH'')] \<rparr>
           [] = (Inr metars, w')
        \<and> dom metars = {''NZAA''}
        \<and> dom metars = upper ` fst ` set (finditer IFIS_terminators ''SPECI nzaa 221900Z=</span>''))
   \<and> (\<exists>metars tr.
        KO61_get_metar_info
           \<lparr> launch = None, newPage = None, goto = None, sleep = None,
             waitForSelector = None, evaluate = Inr (PStr ''METAR KO61 221856Z''), close = None \<rparr>
          = (Inr (Some metars), tr)
        \<and> dom metars = {''KO61''})"
proof -
  let ?ops = "\<lparr> float_of = (\<lambda>s. if s = ''39'' then Some (39 :: int) else None),
          float_lt = (<), float_add = (+), float_sub = (-), float_half = 1,
          float_str = (\<lambda>i. ''0'') \<rparr>"
  let ?nt = "\<lambda>(i::nat) (rq::request). Some \<lparr> status_code = 200, text' = [] \<rparr>"
  let ?json = "\<lambda>s::string. (Inr (PDict [(''weather'', PList
             [PDict [(''s'', PStr ''KDEN''), (''m'', PStr ''KDEN 221856Z'')],
              PDict [(''s'', PStr ''KBJC''), (''m'', PStr ''KBJC 221853Z'')]])]) :: exn + pyval)"
  have u: "upper ''kden'' = ''KDEN''" "upper ''KDEN'' = ''KDEN''" "upper ''kjfk'' = ''KJFK''"
    "upper ''YMML'' = ''YMML''" "upper ''nzaa'' = ''NZAA''"
    by code_simp+
  obtain self where init: "SkyVector_init ?ops [[''KDEN'', ''39'', ''39'']] [''kden''] = Inr self"
    by (simp add: SkyVector_init_def find_coordinates_def bounding_box_def exn_bind_def u)
  have cs: "sv_airport_codes self = [''KDEN'']"
    using find_coordinates_codes [of ?ops "[[''KDEN'', ''39'', ''39'']]" "[''KDEN'']" self] init
    by (simp add: SkyVector_init_def u)
  have q: "query ?nt (sv_url self) [] = (Inr \<lparr> status_code = 200, text' = [] \<rparr>,
             [] @ [LogInfo (sv_url self), Request (GET (sv_url self))])"
    by (rule query_first_ok) (simp_all add: raise_for_status_def)
  define m1 where "m1 = [''KDEN'' \<mapsto> PDict [(''raw_text'', PStr ''KDEN 221856Z'')]]"
  have run1: "SkyVector_get_metar_info ?nt ?json self []
               = (Inr m1, [LogInfo (sv_url self), Request (GET (sv_url self))])"
    by (simp add: SkyVector_get_metar_info_def q exn_bind_def cs u m1_def)
  have "dom m1 \<subseteq> set (map upper [''kden''])"
    using adapter_keys [where ops = ?ops and rows = "[[''KDEN'', ''39'', ''39'']]"
        and codes = "[''kden'']" and sv = self and nt = ?nt and json = ?json and w = "[]"
        and metars = m1 and w' = "[LogInfo (sv_url self), Request (GET (sv_url self))]",
        THEN conjunct1] init run1
    by simp
  moreover have "m1 ''KDEN'' = Some (PDict [(''raw_text'', PStr ''KDEN 221856Z'')])"
    "m1 ''KBJC'' = None"
    by (simp_all add: m1_def)
  ultimately have p1: "\<exists>self metars w'.
      SkyVector_init ?ops [[''KDEN'', ''39'', ''39'']] [''kden''] = Inr self
      \<and> SkyVector_get_metar_info ?nt ?json self [] = (Inr metars, w')
      \<and> metars ''KDEN'' = Some (PDict [(''raw_text'', PStr ''KDEN 221856Z'')])
      \<and> metars ''KBJC'' = None
      \<and> dom metars \<subseteq> set (map upper [''kden''])"
    using init run1 by blast

  let ?nt2 = "\<lambda>(i::nat) (rq::request). Some \<lparr> status_code = 200, text' = ''ok'' \<rparr>"
  let ?e = "PDict [(''station_id'', PStr ''kjfk''), (''raw_text'', PStr ''KJFK 221851Z'')]"
  let ?px = "\<lambda>s::string. (Inr (PDict [(''response'', PDict [(''data'', PDict [(''METAR'', ?e)])])])
                :: exn + pyval)"
  let ?url = "NOAA_URL ''www'' ''KDEN''"
  let ?evs = "[LogInfo ?url, Request (GET ?url), Sleep 1000]"
  have q2: "query ?nt2 ?url [] = (Inr \<lparr> status_code = 200, text' = ''ok'' \<rparr>,
              [] @ [LogInfo ?url, Request (GET ?url)])"
    by (rule query_first_ok) (simp_all add: raise_for_status_def)
  define m2 where "m2 = [''KJFK'' \<mapsto> ?e]"
  have run2: "NOAA_get_metar_info ?nt2 ?px (NOAA_init [''KDEN''] ''www'') [] = (Inr m2, [] @ ?evs)"
    by (simp add: NOAA_get_metar_info_def NOAA_init_def chunks_one q2 NOAA_entries_def
                  exn_bind_def u m2_def)
  obtain evs where evs: "[] @ ?evs = [] @ evs"
    "dom m2 = parsed_keys ?px (successes ?nt2 (issued []) evs)"
    using adapter_keys [where nt = ?nt2 and parsexml = ?px and noaa = "NOAA_init [''KDEN''] ''www''"
        and w = "[]" and metars = m2 and w' = "[] @ ?evs",
        THEN conjunct2, THEN conjunct1, THEN mp, OF run2]
    by blast
  have "evs = ?evs"
    using evs(1) by simp
  then have "dom m2 = parsed_keys ?px (successes ?nt2 (issued []) ?evs)"
    using evs(2) by simp
  moreover have "dom m2 = {''KJFK''}"
    by (simp add: m2_def)
  ultimately have p2: "\<exists>metars evs.
        NOAA_get_metar_info ?nt2 ?px (NOAA_init [''KDEN''] ''www'') [] = (Inr metars, [] @ evs)
        \<and> dom metars = {''KJFK''}
        \<and> dom metars = parsed_keys ?px (successes ?nt2 (issued []) evs)"
    using run2 by blast

  let ?page3 = "''METAR YMML 221856Z <br />''"
  let ?nt3 = "\<lambda>(i::nat) (rq::request). Some \<lparr> status_code = 200, text' = ?page3 \<rparr>"
  have f3: "finditer BOM_terminators ?page3 = [(''YMML'', ''YMML 221856Z '')]"
    by code_simp
  define m3 where "m3 = [''YMML'' \<mapsto> PDict [(''raw_text'', PStr ''YMML 221856Z '')]]"
  have run3: "BOM_get_metar_info ?nt3 (BOM_init [''YSSY'']) []
               = (Inr m3, [Request (POST BOM_URL (BOM_payload (BOM_init [''YSSY''])))])"
    by (simp add: BOM_get_metar_info_def send_def f3 u m3_def)
  obtain r3 where r3: "?nt3 (issued []) (POST BOM_URL (BOM_payload (BOM_init [''YSSY'']))) = Some r3"
    "dom m3 = upper ` fst ` set (finditer BOM_terminators (text' r3))"
    using adapter_keys [where nt = ?nt3 and bom = "BOM_init [''YSSY'']" and w = "[]" and metars = m3
        and w' = "[Request (POST BOM_URL (BOM_payload (BOM_init [''YSSY''])))]",
        THEN conjunct2, THEN conjunct2, THEN conjunct1, THEN mp, OF run3]
    by blast
  have "text' r3 = ?page3"
    using r3(1) by auto
  then have "dom m3 = upper ` fst ` set (finditer BOM_terminators ?page3)"
    using r3(2) by simp
  moreover have "dom m3 = {''YMML''}"
    by (simp add: m3_def)
  ultimately have p3: "\<exists>metars w'.
        BOM_get_metar_info ?nt3 (BOM_init [''YSSY'']) [] = (Inr metars, w')
        \<and> dom metars = {''YMML''}
        \<and> dom metars = upper ` fst ` set (finditer BOM_terminators ?page3)"
    using run3 by blast

  let ?page4 = "''SPECI nzaa 221900Z=</span>''"
  let ?nt4 = "\<lambda>(i::nat) (rq::request). Some \<lparr> status_code = 200, text' = ?page4 \<rparr>"
  let ?ifis = "\<lparr> ifis_airport_codes = ''NZCH'', username = PStr ''u'', password = PStr ''p'',
             login_payload = [(''UserName'', PStr ''u''), (''Password'', PStr ''p'')],
             data_payload = [(''METAR'', PInt 1), (''MetLocations'', PStr ''NZCH'')] \<rparr>"
  have f4: "finditer IFIS_terminators ?page4 = [(''nzaa'', ''nzaa 221900Z'')]"
    by code_simp
  define m4 where "m4 = [''NZAA'' \<mapsto> PDict [(''raw_text'', PStr ''nzaa 221900Z'')]]"
  obtain w4 where run4: "IFIS_get_metar_info ?nt4 ?ifis [] = (Inr m4, w4)"
    by (simp add: IFIS_get_metar_info_def send_def f4 u m4_def)
  obtain r4 where r4: "?nt4 (Suc (issued [])) (POST IFIS_URL (data_payload ?ifis)) = Some r4"
    "dom m4 = upper ` fst ` set (finditer IFIS_terminators (text' r4))"
    using adapter_keys [where nt = ?nt4 and ifis = ?ifis and w = "[]" and metars = m4 and w' = w4,
        THEN conjunct2, THEN conjunct2, THEN conjunct2, THEN conjunct1, THEN mp, OF run4]
    by blast
  have "text' r4 = ?page4"
    using r4(1) by auto
  then have "dom m4 = upper ` fst ` set (finditer IFIS_terminators ?page4)"
    using r4(2) by simp
  moreover have "dom m4 = {''NZAA''}"
    by (simp add: m4_def)
  ultimately have p4: "\<exists>metars w'.
        IFIS_get_metar_info ?nt4 ?ifis [] = (Inr metars, w')
        \<and> dom metars = {''NZAA''}
        \<and> dom metars = upper ` fst ` set (finditer IFIS_terminators ?page4)"
    using run4 by blast

  let ?b = "\<lparr> launch = None, newPage = None, goto = None, sleep = None,
             waitForSelector = None, evaluate = Inr (PStr ''METAR KO61 221856Z''), close = None \<rparr>"
  have sp: "py_split ''METAR KO61 221856Z'' = [''METAR'', ''KO61'', ''221856Z'']"
    by code_simp
  obtain m5 tr5 where run5: "KO61_get_metar_info ?b = (Inr (Some m5), tr5)"
    by (simp add: KO61_get_metar_info_def KO61_try_def KO61_extract_def sp)
  have "dom m5 = {''KO61''}"
    using adapter_keys [where b = ?b and ko = m5 and tr = tr5,
        THEN conjunct2, THEN conjunct2, THEN conjunct2, THEN conjunct2, THEN mp, OF run5] .
  then have p5: "\<exists>metars tr. KO61_get_metar_info ?b = (Inr (Some metars), tr)
        \<and> dom metars = {''KO61''}"
    using run5 by blast
  show ?thesis
    by (intro conjI p1 p2 p3 p4 p5)
qed

theorem keys_in_scope_counterexample:
  "BOM_get_metar_info
      (\<lambda>i rq. Some \<lparr> status_code = 200, text' = ''METAR YMML 221856Z <br />'' \<rparr>)
      (BOM_init [''YSSY'']) []
     = (Inr [''YMML'' \<mapsto> PDict [(''raw_text'', PStr ''YMML 221856Z '')]],
        [Request (POST BOM_URL (BOM_payload (BOM_init [''YSSY''])))])
   \<and> ''YMML'' \<notin> set (map upper [''YSSY''])
   \<and> \<not> (\<forall>nt codes w metars w'.
            BOM_get_metar_info nt (BOM_init codes) w = (Inr metars, w')
              \<longrightarrow> dom metars \<subseteq> set (map upper codes))
   \<and> NOAA_get_metar_info
        (\<lambda>i rq. Some \<lparr> status_code = 200, text' = ''ok'' \<rparr>)
        (\<lambda>s. Inr (PDict [(''response'', PDict [(''data'', PDict [(''METAR'',
                PDict [(''station_id'', PStr ''kjfk''), (''raw_text'', PStr ''KJFK 221851Z'')])])])]))
        (NOAA_init [''KDEN''] ''www'') []
     = (Inr [''KJFK'' \<mapsto> PDict [(''station_id'', PStr ''kjfk''), (''raw_text'', PStr ''KJFK 221851Z'')]],
        [LogInfo (NOAA_URL ''www'' ''KDEN''), Request (GET (NOAA_URL ''www'' ''KDEN'')), Sleep 1000])
   \<and> ''KJFK'' \<notin> set (map upper [''KDEN''])
   \<and> \<not> (\<forall>nt parsexml codes sub w metars w'.
            NOAA_get_metar_info nt parsexml (NOAA_init codes sub) w = (Inr metars, w')
              \<longrightarrow> dom metars \<subseteq> set (map upper codes))
   \<and> IFIS_init [''NZCH'']
        (PDict [(''ifis'', PDict [(''username'', PStr ''u''), (''password'', PStr ''p'')])])
     = Inr \<lparr> ifis_airport_codes = ''NZCH'', username = PStr ''u'', password = PStr ''p'',
             login_payload = [(''UserName'', PStr ''u''), (''Password'', PStr ''p'')],
             data_payload = [(''METAR'', PInt 1), (''MetLocations'', PStr ''NZCH'')] \<rparr>
   \<and> fst (IFIS_get_metar_info
        (\<lambda>i rq. Some \<lparr> status_code = 200, text' = ''SPECI nzaa 221900Z=</span>'' \<rparr>)
        \<lparr> ifis_airport_codes = ''NZCH'', username = PStr ''u'', password = PStr ''p'',
          login_payload = [(''UserName'', PStr ''u''), (''Password'', PStr ''p'')],
          data_payload = [(''METAR'', PInt 1), (''MetLocations'', PStr ''NZCH'')] \<rparr> [])
     = Inr [''NZAA'' \<mapsto> PDict [(''raw_text'', PStr ''nzaa 221900Z'')]]
   \<and> ''NZAA'' \<notin> set (map upper [''NZCH''])
   \<and> \<not> (\<forall>nt codes config self w metars w'.
            IFIS_init codes config = Inr self
              \<and> IFIS_get_metar_info nt self w = (Inr metars, w')
              \<longrightarrow> dom metars \<subseteq> set (map upper codes))"
proof -
  have u: "upper ''YMML'' = ''YMML''" "upper ''YSSY'' = ''YSSY''" "upper ''kjfk'' = ''KJFK''"
    "upper ''KDEN'' = ''KDEN''" "upper ''nzaa'' = ''NZAA''" "upper ''NZCH'' = ''NZCH''"
    by code_simp+
  let ?nt = "\<lambda>(i::nat) (rq::request). Some \<lparr> status_code = 200, text' = ''METAR YMML 221856Z <br />'' \<rparr>"
  let ?m = "[''YMML'' \<mapsto> PDict [(''raw_text'', PStr ''YMML 221856Z '')]]"
  have f: "finditer BOM_terminators ''METAR YMML 221856Z <br />'' = [(''YMML'', ''YMML 221856Z '')]"
    by code_simp
  have run: "BOM_get_metar_info ?nt (BOM_init [''YSSY'']) []
               = (Inr ?m, [Request (POST BOM_URL (BOM_payload (BOM_init [''YSSY''])))])"
    by (simp add: BOM_get_metar_info_def send_def f u)
  have out: "''YMML'' \<notin> set (map upper [''YSSY''])"
    by (simp add: u)
  have "\<not> dom ?m \<subseteq> set (map upper [''YSSY''])"
    using out by simp
  then have no: "\<not> (\<forall>nt codes w metars w'.
            BOM_get_metar_info nt (BOM_init codes) w = (Inr metars, w')
              \<longrightarrow> dom metars \<subseteq> set (map upper codes))"
    using run by blast

  let ?nt2 = "\<lambda>(i::nat) (rq::request). Some \<lparr> status_code = 200, text' = ''ok'' \<rparr>"
  let ?e = "PDict [(''station_id'', PStr ''kjfk''), (''raw_text'', PStr ''KJFK 221851Z'')]"
  let ?px = "\<lambda>s::string. (Inr (PDict [(''response'', PDict [(''data'', PDict [(''METAR'', ?e)])])])
                :: exn + pyval)"
  let ?url = "NOAA_URL ''www'' ''KDEN''"
  let ?m2 = "[''KJFK'' \<mapsto> ?e]"
  have q2: "query ?nt2 ?url [] = (Inr \<lparr> status_code = 200, text' = ''ok'' \<rparr>,
              [] @ [LogInfo ?url, Request (GET ?url)])"
    by (rule query_first_ok) (simp_all add: raise_for_status_def)
  have run2: "NOAA_get_metar_info ?nt2 ?px (NOAA_init [''KDEN''] ''www'') []
                = (Inr ?m2, [LogInfo ?url, Request (GET ?url), Sleep 1000])"
    by (simp add: NOAA_get_metar_info_def NOAA_init_def chunks_one q2 NOAA_entries_def
                  exn_bind_def u)
  have out2: "''KJFK'' \<notin> set (map upper [''KDEN''])"
    by (simp add: u)
  have "\<not> dom ?m2 \<subseteq> set (map upper [''KDEN''])"
    using out2 by simp
  then have no2: "\<not> (\<forall>nt parsexml codes sub w metars w'.
            NOAA_get_metar_info nt parsexml (NOAA_init codes sub) w = (Inr metars, w')
              \<longrightarrow> dom metars \<subseteq> set (map upper codes))"
    using run2 by blast

  let ?page4 = "''SPECI nzaa 221900Z=</span>''"
  let ?nt4 = "\<lambda>(i::nat) (rq::request). Some \<lparr> status_code = 200, text' = ?page4 \<rparr>"
  let ?cfg = "PDict [(''ifis'', PDict [(''username'', PStr ''u''), (''password'', PStr ''p'')])]"
  let ?ifis = "\<lparr> ifis_airport_codes = ''NZCH'', username = PStr ''u'', password = PStr ''p'',
             login_payload = [(''UserName'', PStr ''u''), (''Password'', PStr ''p'')],
             data_payload = [(''METAR'', PInt 1), (''MetLocations'', PStr ''NZCH'')] \<rparr>"
  let ?m4 = "[''NZAA'' \<mapsto> PDict [(''raw_text'', PStr ''nzaa 221900Z'')]]"
  have f4: "finditer IFIS_terminators ?page4 = [(''nzaa'', ''nzaa 221900Z'')]"
    by code_simp
  have init4: "IFIS_init [''NZCH''] ?cfg = Inr ?ifis"
    by (simp add: IFIS_init_def exn_bind_def Let_def ACCEPTED_CODES_def)
  have run4: "fst (IFIS_get_metar_info ?nt4 ?ifis []) = Inr ?m4"
    by (simp add: IFIS_get_metar_info_def send_def f4 u)
  have out4: "''NZAA'' \<notin> set (map upper [''NZCH''])"
    by (simp add: u)
  have "\<not> dom ?m4 \<subseteq> set (map upper [''NZCH''])"
    using out4 by simp
  moreover have "IFIS_get_metar_info ?nt4 ?ifis [] = (Inr ?m4, snd (IFIS_get_metar_info ?nt4 ?ifis []))"
    using run4 by (metis prod.collapse)
  ultimately have no4: "\<not> (\<forall>nt codes config self w metars w'.
            IFIS_init codes config = Inr self
              \<and> IFIS_get_metar_info nt self w = (Inr metars, w')
              \<longrightarrow> dom metars \<subseteq> set (map upper codes))"
    using init4 by blast
  show ?thesis
    by (intro conjI run out no run2 out2 no2 init4 run4 out4 no4)
qed

lemma chunks_250: "chunks l 250 = Inr (groups_of 250 l)"
  using chunks_range_groups [of 250 0 l] by (simp add: chunks_def)

lemma lower_char_not_N: "lower_char c \<noteq> CHR ''N''"
proof (cases "map_of (zip ascii_uppercase ascii_lowercase) c")
  case None
  have "c \<notin> set ascii_uppercase"
  proof
    assume "c \<in> set ascii_uppercase"
    then have "map_of (zip ascii_uppercase ascii_lowercase) c \<noteq> None"
      using ascii_case_length by (simp add: map_of_zip_is_None)
    then show False
      using None by simp
  qed
  moreover have "CHR ''N'' \<in> set ascii_uppercase"
    by (simp add: ascii_uppercase_def)
  ultimately have "c \<noteq> CHR ''N''"
    by blast
  then show ?thesis
    using None by (simp add: lower_char_def)
next
  case (Some u)
  then have "u \<in> set ascii_lowercase"
    by (auto dest!: map_of_SomeD set_zip_rightD)
  moreover have "CHR ''N'' \<notin> set ascii_lowercase"
    by (simp add: ascii_lowercase_def)
  ultimately have "u \<noteq> CHR ''N''"
    by blast
  then show ?thesis
    using Some by (simp add: lower_char_def)
qed

lemma ACCEPTED_CODES_hd: "c \<in> ACCEPTED_CODES \<Longrightarrow> c \<noteq> [] \<and> hd c = CHR ''N''"
  unfolding ACCEPTED_CODES_def by auto

lemma lower_not_accepted: "lower c \<notin> ACCEPTED_CODES"
proof
  assume "lower c \<in> ACCEPTED_CODES"
  then have "lower c \<noteq> []" "hd (lower c) = CHR ''N''"
    using ACCEPTED_CODES_hd by blast+
  then have "lower_char (hd c) = CHR ''N''"
    by (simp_all add: lower_def hd_map)
  then show False
    using lower_char_not_N by blast
qed

lemma NOAA_requests_as_given:
  assumes "NOAA_get_metar_info nt parsexml (NOAA_init codes sub) w = (res, w')"
  shows "\<exists>evs. w' = w @ evs
           \<and> set (requests_of evs) \<subseteq> NOAA_request sub ` set (groups_of 250 codes)
           \<and> (codes \<noteq> [] \<longrightarrow> requests_of evs \<noteq> []
                \<and> hd (requests_of evs) = NOAA_request sub (take 250 codes))"
proof -
  have "NOAA_loop nt parsexml sub (groups_of 250 codes) Map.empty w = (res, w')"
    using assms by (simp add: NOAA_get_metar_info_def NOAA_init_def chunks_250)
  then obtain evs where evs: "w' = w @ evs"
    "set (requests_of evs) \<subseteq> NOAA_request sub ` set (groups_of 250 codes)"
    "groups_of 250 codes \<noteq> [] \<longrightarrow> requests_of evs \<noteq> []
       \<and> hd (requests_of evs) = NOAA_request sub (hd (groups_of 250 codes))"
    using NOAA_loop_requests by blast
  have "groups_of 250 codes \<noteq> [] \<and> hd (groups_of 250 codes) = take 250 codes" if "codes \<noteq> []"
    using that groups_of_step [of 250 codes] by simp
  then show ?thesis
    using evs by (intro exI [of _ evs]) auto
qed

lemma BOM_request_as_given:
  assumes "BOM_get_metar_info nt (BOM_init codes) w = (res, w')"
  shows "requests_of w' = requests_of w
           @ [POST BOM_URL [(''keyword'', PStr (join '','' codes)), (''type'', PStr ''search''),
                            (''page'', PStr ''TAF'')]]"
  using assms
  by (auto simp: BOM_get_metar_info_def send_def BOM_payload_def BOM_init_def requests_of_append
           split: option.splits)

lemma IFIS_payload_as_given:
  assumes "IFIS_init codes config = Inr self"
  shows "data_payload self
           = [(''METAR'', PInt 1),
              (''MetLocations'', PStr (join '' '' (filter (\<lambda>code. code \<in> ACCEPTED_CODES) codes)))]"
  using assms
  by (auto simp: IFIS_init_def exn_bind_def Let_def split: sum.splits)

text \<open>
  C5, as amended. Every adapter upper-cases the keys of the mapping it returns. Of the
  requested codes, only the SkyVector adapter canonicalizes: it upper-cases them when it
  is constructed, so a lower-cased and an upper-cased code set construct the same adapter
  (the same URL, the same filter, hence the same request and the same keys). The NOAA
  adapters and the BOM adapter put the requested codes into the request as they were
  given: every request of a NOAA retrieval is the GET of the URL formatted with a group
  of at most 250 of the codes as given, joined by commas, the first one with the first
  such group, and the one request of a BOM retrieval posts the codes as given, joined by
  commas, as its keyword. The IFIS adapter compares the codes with its allow-list
  case-sensitively: its payload lists the codes that are literally in \<open>ACCEPTED_CODES\<close>,
  and no lower-cased code is.
\<close>

theorem codes_upper_cased:
  "(NOAA_get_metar_info nt parsexml noaa w = (Inr metars, w')
      \<or> SkyVector_get_metar_info nt json sv w = (Inr metars, w')
      \<or> BOM_get_metar_info nt bom w = (Inr metars, w')
      \<or> IFIS_get_metar_info nt ifis w = (Inr metars, w')
      \<or> KO61_get_metar_info b = (Inr (Some metars), tr)
      \<longrightarrow> (\<forall>k \<in> dom metars. upper k = k))
   \<and> SkyVector_init ops rows (map lower codes) = SkyVector_init ops rows (map upper codes)
   \<and> (NOAA_get_metar_info nt parsexml (NOAA_init codes sub) w = (res, w2)
      \<longrightarrow> (\<exists>evs. w2 = w @ evs
              \<and> set (requests_of evs) \<subseteq> NOAA_request sub ` set (groups_of 250 codes)
              \<and> (codes \<noteq> [] \<longrightarrow> requests_of evs \<noteq> []
                   \<and> hd (requests_of evs) = NOAA_request sub (take 250 codes))))
   \<and> (BOM_get_metar_info nt (BOM_init codes) w = (res, w2)
      \<longrightarrow> requests_of w2 = requests_of w
            @ [POST BOM_URL [(''keyword'', PStr (join '','' codes)), (''type'', PStr ''search''),
                             (''page'', PStr ''TAF'')]])
   \<and> (IFIS_init codes config = Inr self
      \<longrightarrow> data_payload self
            = [(''METAR'', PInt 1),
               (''MetLocations'',
                PStr (join '' '' (filter (\<lambda>code. code \<in> ACCEPTED_CODES) codes)))])
   \<and> filter (\<lambda>code. code \<in> ACCEPTED_CODES) (map lower codes) = []"
proof -
  have init: "SkyVector_init ops rows (map lower codes)
                = SkyVector_init ops rows (map upper codes)"
    by (simp add: SkyVector_init_def upper_lower upper_idem comp_def)
  have none: "filter (\<lambda>code. code \<in> ACCEPTED_CODES) (map lower codes) = []"
    by (simp add: filter_empty_conv lower_not_accepted)
  show ?thesis
    using result_keys_upper NOAA_requests_as_given BOM_request_as_given IFIS_payload_as_given
    by (intro conjI impI init none) blast+
qed

theorem codes_upper_cased_witness:
  "BOM_get_metar_info (\<lambda>i rq. Some \<lparr> status_code = 200, text' = ''SPECI nzch 221856Z <h3>'' \<rparr>)
       (BOM_init [''nzch'']) []
     = (Inr [''NZCH'' \<mapsto> PDict [(''raw_text'', PStr ''nzch 221856Z '')]],
        [Request (POST BOM_URL (BOM_payload (BOM_init [''nzch''])))])
   \<and> dom [''NZCH'' \<mapsto> PDict [(''raw_text'', PStr ''nzch 221856Z '')]] = {''NZCH''}
   \<and> upper ''NZCH'' = ''NZCH''
   \<and> requests_of [Request (POST BOM_URL (BOM_payload (BOM_init [''nzch''])))]
       = [POST BOM_URL [(''keyword'', PStr ''nzch''), (''type'', PStr ''search''),
                        (''page'', PStr ''TAF'')]]
   \<and> SkyVector_init
        \<lparr> float_of = (\<lambda>s. if s = ''39'' then Some (39 :: int) else None),
          float_lt = (<), float_add = (+), float_sub = (-), float_half = 1,
          float_str = (\<lambda>i. ''0'') \<rparr>
        [[''KDEN'', ''39'', ''39'']] (map lower [''KDEN''])
     = SkyVector_init
        \<lparr> float_of = (\<lambda>s. if s = ''39'' then Some (39 :: int) else None),
          float_lt = (<), float_add = (+), float_sub = (-), float_half = 1,
          float_str = (\<lambda>i. ''0'') \<rparr>
        [[''KDEN'', ''39'', ''39'']] (map upper [''KDEN''])
   \<and> NOAA_get_metar_info
        (\<lambda>i rq. Some \<lparr> status_code = 200, text' = ''ok'' \<rparr>)
        (\<lambda>s. Inr (PDict [(''response'', PDict [(''data'', PDict [(''METAR'',
                PDict [(''station_id'', PStr ''kden''), (''raw_text'', PStr ''KDEN 221851Z'')])])])]))
        (NOAA_init [''kden''] ''www'') []
     = (Inr [''KDEN'' \<mapsto> PDict [(''station_id'', PStr ''kden''), (''raw_text'', PStr ''KDEN 221851Z'')]],
        [LogInfo (NOAA_URL ''www'' ''kden''), Request (GET (NOAA_URL ''www'' ''kden'')), Sleep 1000])
   \<and> hd (requests_of
            [LogInfo (NOAA_URL ''www'' ''kden''), Request (GET (NOAA_URL ''www'' ''kden'')), Sleep 1000])
       = GET (NOAA_URL ''www'' ''kden'')
   \<and> (\<exists>self. IFIS_init [''NZCH'', ''nzaa'']
                  (PDict [(''ifis'', PDict [(''username'', PStr ''u''), (''password'', PStr ''p'')])])
                = Inr self
          \<and> data_payload self = [(''METAR'', PInt 1), (''MetLocations'', PStr ''NZCH'')])
   \<and> filter (\<lambda>code. code \<in> ACCEPTED_CODES) (map lower [''NZCH'', ''NZAA'']) = []"
proof -
  let ?nt = "\<lambda>(i::nat) (rq::request). Some \<lparr> status_code = 200, text' = ''SPECI nzch 221856Z <h3>'' \<rparr>"
  let ?m = "[''NZCH'' \<mapsto> PDict [(''raw_text'', PStr ''nzch 221856Z '')]]"
  let ?w = "[Request (POST BOM_URL (BOM_payload (BOM_init [''nzch''])))]"
  have f: "finditer BOM_terminators ''SPECI nzch 221856Z <h3>'' = [(''nzch'', ''nzch 221856Z '')]"
    by code_simp
  have u: "upper ''nzch'' = ''NZCH''" "upper ''kden'' = ''KDEN''"
    by code_simp+
  have run: "BOM_get_metar_info ?nt (BOM_init [''nzch'']) [] = (Inr ?m, ?w)"
    by (simp add: BOM_get_metar_info_def send_def f u)
  have d: "NOAA_get_metar_info ?nt parsexml noaa [] = (Inr ?m, ?w)
           \<or> SkyVector_get_metar_info ?nt json sv [] = (Inr ?m, ?w)
           \<or> BOM_get_metar_info ?nt (BOM_init [''nzch'']) [] = (Inr ?m, ?w)
           \<or> IFIS_get_metar_info ?nt ifis [] = (Inr ?m, ?w)
           \<or> KO61_get_metar_info b = (Inr (Some ?m), tr)" for parsexml noaa json sv ifis b tr
    using run by simp
  have dm: "dom ?m = {''NZCH''}"
    by simp
  have "\<forall>k \<in> dom ?m. upper k = k"
    by (rule codes_upper_cased [where nt = ?nt and w = "[]" and metars = ?m and w' = ?w
          and bom = "BOM_init [''nzch'']", THEN conjunct1, THEN mp, OF d])
  then have k: "upper ''NZCH'' = ''NZCH''"
    using dm by simp
  have "requests_of ?w = requests_of []
          @ [POST BOM_URL [(''keyword'', PStr (join '','' [''nzch''])), (''type'', PStr ''search''),
                           (''page'', PStr ''TAF'')]]"
    by (rule codes_upper_cased [where nt = ?nt and w = "[]" and codes = "[''nzch'']"
          and res = "Inr ?m" and ?w2.0 = ?w,
          THEN conjunct2, THEN conjunct2, THEN conjunct2, THEN conjunct1, THEN mp, OF run])
  then have rq: "requests_of ?w
       = [POST BOM_URL [(''keyword'', PStr ''nzch''), (''type'', PStr ''search''),
                        (''page'', PStr ''TAF'')]]"
    by simp

  let ?ops = "\<lparr> float_of = (\<lambda>s. if s = ''39'' then Some (39 :: int) else None),
          float_lt = (<), float_add = (+), float_sub = (-), float_half = 1,
          float_str = (\<lambda>i. ''0'') \<rparr>"
  have sv: "SkyVector_init ?ops [[''KDEN'', ''39'', ''39'']] (map lower [''KDEN''])
          = SkyVector_init ?ops [[''KDEN'', ''39'', ''39'']] (map upper [''KDEN''])"
    by (rule codes_upper_cased [where ops = ?ops and rows = "[[''KDEN'', ''39'', ''39'']]"
          and codes = "[''KDEN'']", THEN conjunct2, THEN conjunct1])

  let ?nt2 = "\<lambda>(i::nat) (rq::request). Some \<lparr> status_code = 200, text' = ''ok'' \<rparr>"
  let ?e = "PDict [(''station_id'', PStr ''kden''), (''raw_text'', PStr ''KDEN 221851Z'')]"
  let ?px = "\<lambda>s::string. (Inr (PDict [(''response'', PDict [(''data'', PDict [(''METAR'', ?e)])])])
                :: exn + pyval)"
  let ?url = "NOAA_URL ''www'' ''kden''"
  let ?evs = "[LogInfo ?url, Request (GET ?url), Sleep 1000]"
  have q2: "query ?nt2 ?url [] = (Inr \<lparr> status_code = 200, text' = ''ok'' \<rparr>,
              [] @ [LogInfo ?url, Request (GET ?url)])"
    by (rule query_first_ok) (simp_all add: raise_for_status_def)
  have run2: "NOAA_get_metar_info ?nt2 ?px (NOAA_init [''kden''] ''www'') []
                = (Inr [''KDEN'' \<mapsto> ?e], ?evs)"
    by (simp add: NOAA_get_metar_info_def NOAA_init_def chunks_one q2 NOAA_entries_def
                  exn_bind_def u)
  obtain evs where evs: "?evs = [] @ evs"
    "[''kden''] \<noteq> [] \<longrightarrow> requests_of evs \<noteq> []
       \<and> hd (requests_of evs) = NOAA_request ''www'' (take 250 [''kden''])"
    using codes_upper_cased [where nt = ?nt2 and parsexml = ?px and codes = "[''kden'']"
          and sub = "''www''" and w = "[]" and res = "Inr [''KDEN'' \<mapsto> ?e]" and ?w2.0 = ?evs,
          THEN conjunct2, THEN conjunct2, THEN conjunct1, THEN mp, OF run2]
    by blast
  have "evs = ?evs"
    using evs(1) by simp
  then have "hd (requests_of ?evs) = NOAA_request ''www'' (take 250 [''kden''])"
    using evs(2) by simp
  then have h: "hd (requests_of ?evs) = GET ?url"
    by (simp add: NOAA_request_def)

  let ?cfg = "PDict [(''ifis'', PDict [(''username'', PStr ''u''), (''password'', PStr ''p'')])]"
  obtain self where init: "IFIS_init [''NZCH'', ''nzaa''] ?cfg = Inr self"
    by (simp add: IFIS_init_def exn_bind_def Let_def)
  have "data_payload self
          = [(''METAR'', PInt 1),
             (''MetLocations'',
              PStr (join '' '' (filter (\<lambda>code. code \<in> ACCEPTED_CODES) [''NZCH'', ''nzaa''])))]"
    by (rule codes_upper_cased [where codes = "[''NZCH'', ''nzaa'']" and config = ?cfg
          and self = self,
          THEN conjunct2, THEN conjunct2, THEN conjunct2, THEN conjunct2, THEN conjunct1,
          THEN mp, OF init])
  then have "data_payload self = [(''METAR'', PInt 1), (''MetLocations'', PStr ''NZCH'')]"
    by (simp add: ACCEPTED_CODES_def)
  then have i: "\<exists>self. IFIS_init [''NZCH'', ''nzaa''] ?cfg = Inr self
          \<and> data_payload self = [(''METAR'', PInt 1), (''MetLocations'', PStr ''NZCH'')]"
    using init by blast
  have n: "filter (\<lambda>code. code \<in> ACCEPTED_CODES) (map lower [''NZCH'', ''NZAA'']) = []"
    by (rule codes_upper_cased [where codes = "[''NZCH'', ''NZAA'']",
          THEN conjunct2, THEN conjunct2, THEN conjunct2, THEN conjunct2, THEN conjunct2])
  show ?thesis
    by (intro conjI run dm k rq sv run2 h i n)
qed

theorem codes_upper_cased_counterexample:
  "requests_of (snd (NOAA_get_metar_info (\<lambda>i rq. None) (\<lambda>s. Inl ExpatError)
       (NOAA_init (map lower [''KDEN'']) ''www'') []))
     = replicate 10 (GET (NOAA_URL ''www'' ''kden''))
   \<and> requests_of (snd (NOAA_get_metar_info (\<lambda>i rq. None) (\<lambda>s. Inl ExpatError)
       (NOAA_init (map upper [''KDEN'']) ''www'') []))
     = replicate 10 (GET (NOAA_URL ''www'' ''KDEN''))
   \<and> NOAA_URL ''www'' ''kden'' \<noteq> NOAA_URL ''www'' ''KDEN''
   \<and> BOM_payload (BOM_init (map lower [''YSSY''])) \<noteq> BOM_payload (BOM_init (map upper [''YSSY'']))
   \<and> IFIS_init (map lower [''NZCH''])
         (PDict [(''ifis'', PDict [(''username'', PStr ''u''), (''password'', PStr ''p'')])])
       = Inr \<lparr> ifis_airport_codes = [], username = PStr ''u'', password = PStr ''p'',
               login_payload = [(''UserName'', PStr ''u''), (''Password'', PStr ''p'')],
               data_payload = [(''METAR'', PInt 1), (''MetLocations'', PStr [])] \<rparr>
   \<and> IFIS_init (map upper [''NZCH''])
         (PDict [(''ifis'', PDict [(''username'', PStr ''u''), (''password'', PStr ''p'')])])
       = Inr \<lparr> ifis_airport_codes = ''NZCH'', username = PStr ''u'', password = PStr ''p'',
               login_payload = [(''UserName'', PStr ''u''), (''Password'', PStr ''p'')],
               data_payload = [(''METAR'', PInt 1), (''MetLocations'', PStr ''NZCH'')] \<rparr>"
proof -
  have l: "lower ''KDEN'' = ''kden''" "lower ''YSSY'' = ''yssy''" "lower ''NZCH'' = ''nzch''"
    by code_simp+
  have u: "upper ''KDEN'' = ''KDEN''" "upper ''YSSY'' = ''YSSY''" "upper ''NZCH'' = ''NZCH''"
    by code_simp+
  have c: "chunks [x] 250 = Inr [[x]]" for x :: string
    by (simp add: chunks_def py_range.simps py_slice_def)
  have r10: "y # replicate 9 y = replicate 10 y" for y :: request
    by (simp add: numeral_eq_Suc)
  have q: "query (\<lambda>i rq. None) url []
             = (Inl (attempt_error (\<lambda>i rq. None) (issued [] + 9) url),
                [] @ retried_attempts url 1 9
                  @ [LogInfo url, Request (GET url), LogException ''Metar query failure.''])" for url
    by (rule query_all_fail) (simp add: attempt_fails_def)
  have n: "requests_of (snd (NOAA_get_metar_info (\<lambda>i rq. None) (\<lambda>s. Inl ExpatError)
             (NOAA_init [x] ''www'') [])) = replicate 10 (GET (NOAA_URL ''www'' x))" for x
    by (simp add: NOAA_get_metar_info_def NOAA_init_def c q requests_of_append
          requests_of_retried replicate_append_same r10)
  have d: "NOAA_URL ''www'' ''kden'' \<noteq> NOAA_URL ''www'' ''KDEN''"
    by (simp add: NOAA_URL_def)
  have b: "BOM_payload (BOM_init [''yssy'']) \<noteq> BOM_payload (BOM_init [''YSSY''])"
    by (simp add: BOM_payload_def BOM_init_def)
  have i1: "IFIS_init [''nzch'']
         (PDict [(''ifis'', PDict [(''username'', PStr ''u''), (''password'', PStr ''p'')])])
       = Inr \<lparr> ifis_airport_codes = [], username = PStr ''u'', password = PStr ''p'',
               login_payload = [(''UserName'', PStr ''u''), (''Password'', PStr ''p'')],
               data_payload = [(''METAR'', PInt 1), (''MetLocations'', PStr [])] \<rparr>"
    by (simp add: IFIS_init_def exn_bind_def ACCEPTED_CODES_def Let_def)
  have i2: "IFIS_init [''NZCH'']
         (PDict [(''ifis'', PDict [(''username'', PStr ''u''), (''password'', PStr ''p'')])])
       = Inr \<lparr> ifis_airport_codes = ''NZCH'', username = PStr ''u'', password = PStr ''p'',
               login_payload = [(''UserName'', PStr ''u''), (''Password'', PStr ''p'')],
               data_payload = [(''METAR'', PInt 1), (''MetLocations'', PStr ''NZCH'')] \<rparr>"
    by (simp add: IFIS_init_def exn_bind_def ACCEPTED_CODES_def Let_def)
  show ?thesis
    using n [of "''kden''"] n [of "''KDEN''"] d b i1 i2 by (simp add: l u)
qed





















end
